theory Spec2Isabelle
  imports Main "HOL-Library.Word" "HOL-Library.List_Lexorder" "HOL-Library.Sublist"
    "HOL-Library.Multiset" "HOL-Library.AList"
begin

section \<open>Strings\<close>

text \<open>
  A JavaScript string is a sequence of UTF-16 code units; \<open>length\<close>, the regular
  expressions without the \<open>u\<close> flag, \<open>trim\<close> and the default \<open>sort\<close> all work on
  code units. String literals of the source are ASCII and are written \<open>u16 ''...''\<close>.
\<close>

type_synonym code_unit = "16 word"
type_synonym js_string = "code_unit list"

definition u16 :: "string \<Rightarrow> js_string" where
  "u16 s = map (\<lambda>c. of_nat (of_char c)) s"

text \<open>The class \<open>\s\<close> of a regular expression, which is also what \<open>trim\<close> strips:
  the WhiteSpace and LineTerminator code points of ECMAScript.\<close>

definition isWhiteSpace :: "code_unit \<Rightarrow> bool" where
  "isWhiteSpace c \<longleftrightarrow>
     (0x09 \<le> c \<and> c \<le> 0x0D) \<or> c = 0x20 \<or> c = 0xA0 \<or> c = 0x1680 \<or>
     (0x2000 \<le> c \<and> c \<le> 0x200A) \<or> c = 0x2028 \<or> c = 0x2029 \<or>
     c = 0x202F \<or> c = 0x205F \<or> c = 0x3000 \<or> c = 0xFEFF"

definition trim :: "js_string \<Rightarrow> js_string" where
  "trim s = rev (dropWhile isWhiteSpace (rev (dropWhile isWhiteSpace s)))"

definition startsWith :: "js_string \<Rightarrow> js_string \<Rightarrow> bool" where
  "startsWith s p \<longleftrightarrow> take (length p) s = p"

section \<open>Numbers\<close>

text \<open>
  A number of JavaScript is a double. A safe integer (\<open>Number.isSafeInteger\<close>: an
  integer \<open>n\<close> with \<open>|n| \<le> 2\<^sup>5\<^sup>3 - 1\<close>) is given by its value. Every other number (a
  number with a fraction, an integer from \<open>2\<^sup>5\<^sup>3\<close> on, an infinity, \<open>NaN\<close>) is given by
  the text that the platform prints for it (\<open>1.5\<close>, \<open>18446744073709552000\<close>, \<open>1e+21\<close>,
  \<open>Infinity\<close>), which is not computed here. Two numbers that are equal for \<open>===\<close> are
  the same value of this type; \<open>NaN\<close>, which is not equal to itself, is never compared
  in the code modelled here.
\<close>

datatype js_number = SafeInteger int | OtherNumber js_string

text \<open>The decimal digits of a natural number, and \<open>String(n)\<close> (\<open>Number::toString\<close>):
  for a safe integer its decimal representation, with a minus sign when it is
  negative; for another number the text it is given by.\<close>

function digits :: "nat \<Rightarrow> js_string" where
  "digits n = (if n < 10 then [0x30 + of_nat n] else digits (n div 10) @ [0x30 + of_nat (n mod 10)])"
  by pat_completeness auto
termination
  by (relation "measure id") auto

declare digits.simps [simp del]

fun Number_toString :: "js_number \<Rightarrow> js_string" where
  "Number_toString (SafeInteger n) = (if n < 0 then 0x2D # digits (nat (- n)) else digits (nat n))"
| "Number_toString (OtherNumber t) = t"

declare Number_toString.simps [simp del]

text \<open>The integer that a decimal representation denotes.\<close>

definition digitsValue :: "js_string \<Rightarrow> nat" where
  "digitsValue s = foldl (\<lambda>a c. 10 * a + (unat c - 48)) 0 s"

definition decimalValue :: "js_string \<Rightarrow> int" where
  "decimalValue s =
     (case s of
        [] \<Rightarrow> 0
      | c # cs \<Rightarrow> if c = 0x2D then - int (digitsValue cs) else int (digitsValue s))"

text \<open>The values of the type that stand for a number: \<open>SafeInteger n\<close> when \<open>n\<close> is in
  the range of the safe integers, and \<open>OtherNumber t\<close> when \<open>t\<close> is not the decimal
  representation of a safe integer.\<close>

fun validNumber :: "js_number \<Rightarrow> bool" where
  "validNumber (SafeInteger n) \<longleftrightarrow> \<bar>n\<bar> \<le> 2 ^ 53 - 1"
| "validNumber (OtherNumber t) \<longleftrightarrow>
     \<not> (\<bar>decimalValue t\<bar> \<le> 2 ^ 53 - 1 \<and> Number_toString (SafeInteger (decimalValue t)) = t)"

section \<open>Data model (types.ts)\<close>

text \<open>The interfaces of \<open>types.ts\<close> as records. Where two interfaces have a field of the
  same name, or a field has the name of a keyword, the field carries a prefix
  (\<open>p_name\<close>, \<open>fn_name\<close>, \<open>r_functions\<close>).\<close>

record ParameterSignature =
  p_name :: js_string
  p_type :: js_string
  optional :: bool

record FunctionSignature =
  fn_name :: js_string
  parameters :: "ParameterSignature list"
  returnType :: js_string
  filePath :: js_string
  isExported :: bool

record InterfaceProperty =
  ip_name :: js_string
  ip_type :: js_string
  ip_optional :: bool

record InterfaceDefinition =
  if_name :: js_string
  properties :: "InterfaceProperty list"
  if_filePath :: js_string

record TypeAliasDefinition =
  ta_name :: js_string
  definition_text :: js_string
  ta_filePath :: js_string

text \<open>
  A \<open>Record<string, T>\<close> is the list of its own properties in the order
  \<open>Object.keys\<close> enumerates them; reading a property is \<open>map_of\<close>.
\<close>

record SymbolRegistry =
  r_functions :: "(js_string \<times> FunctionSignature) list"
  r_interfaces :: "(js_string \<times> InterfaceDefinition) list"
  r_types :: "(js_string \<times> TypeAliasDefinition) list"

record ProjectSnapshot =
  symbols :: SymbolRegistry

datatype SignatureChange =
    ParameterAdded ParameterSignature bool
  | ParameterRemoved ParameterSignature
  | ParameterTypeChanged ParameterSignature ParameterSignature
  | ReturnTypeChanged js_string js_string

text \<open>The field \<open>breaking\<close>: a boolean on \<open>parameter-added\<close>, the literal type
  \<open>true\<close> on the three other variants.\<close>

fun breaking :: "SignatureChange \<Rightarrow> bool" where
  "breaking (ParameterAdded p b) = b"
| "breaking (ParameterRemoved p) = True"
| "breaking (ParameterTypeChanged p q) = True"
| "breaking (ReturnTypeChanged r s) = True"

record FunctionDrift =
  d_name :: js_string
  filePathBefore :: js_string
  filePathAfter :: js_string
  changes :: "SignatureChange list"

datatype SemverBump = Major | Minor | Patch

record DriftReport =
  modifiedFunctions :: "FunctionDrift list"
  addedFunctions :: "js_string list"
  removedFunctions :: "js_string list"
  hasBreakingChanges :: bool
  suggestedVersion :: SemverBump

definition SNAPSHOT_FORMAT_VERSION :: js_number where
  "SNAPSHOT_FORMAT_VERSION = SafeInteger 1"

text \<open>The optional fields \<open>gitRef\<close> and \<open>gitSha\<close> are \<open>None\<close> when they are
  \<open>undefined\<close>.\<close>

record StoredSnapshotMetadata =
  version :: js_number
  createdAt :: js_string
  tsConfigPath :: js_string
  gitRef :: "js_string option"
  gitSha :: "js_string option"

record StoredSnapshot =
  metadata :: StoredSnapshotMetadata
  snapshot :: ProjectSnapshot

section \<open>Maps and sets of JavaScript\<close>

text \<open>
  A \<open>Map\<close> iterates in the order of first insertion; setting a key that is present
  replaces the value and keeps the position. \<open>new Map(entries)\<close> sets the entries one
  after the other. A \<open>Set\<close> built from an array keeps the first occurrence of each
  element.
\<close>

definition Map_set :: "('k \<times> 'v) list \<Rightarrow> 'k \<Rightarrow> 'v \<Rightarrow> ('k \<times> 'v) list" where
  "Map_set m k v = AList.update k v m"

definition new_Map :: "('k \<times> 'v) list \<Rightarrow> ('k \<times> 'v) list" where
  "new_Map entries = foldl (\<lambda>m (k, v). Map_set m k v) [] entries"

definition Map_get :: "('k \<times> 'v) list \<Rightarrow> 'k \<Rightarrow> 'v option" where
  "Map_get m k = map_of m k"

definition Map_has :: "('k \<times> 'v) list \<Rightarrow> 'k \<Rightarrow> bool" where
  "Map_has m k \<longleftrightarrow> map_of m k \<noteq> None"

definition new_Set :: "'a list \<Rightarrow> 'a list" where
  "new_Set xs = foldl (\<lambda>s x. if x \<in> set s then s else s @ [x]) [] xs"

definition Set_has :: "'a list \<Rightarrow> 'a \<Rightarrow> bool" where
  "Set_has s x \<longleftrightarrow> x \<in> set s"

section \<open>Signature comparator (analyzer/signatureComparator.ts)\<close>

text \<open>\<open>s.replace(/\s+/g, " ")\<close>: every maximal run of white space becomes one space.\<close>

function collapse_whitespace :: "js_string \<Rightarrow> js_string" where
  "collapse_whitespace [] = []"
| "collapse_whitespace (c # cs) =
     (if isWhiteSpace c then 0x20 # collapse_whitespace (dropWhile isWhiteSpace cs)
      else c # collapse_whitespace cs)"
  by pat_completeness auto
termination
  by (relation "measure length") (auto simp: length_dropWhile_le less_Suc_eq_le)

definition normalizeForComparison :: "js_string \<Rightarrow> js_string" where
  "normalizeForComparison s = trim (collapse_whitespace s)"

definition paramsEqual :: "ParameterSignature \<Rightarrow> ParameterSignature \<Rightarrow> bool" where
  "paramsEqual a b \<longleftrightarrow>
     p_name a = p_name b \<and> optional a = optional b \<and>
     normalizeForComparison (p_type a) = normalizeForComparison (p_type b)"

text \<open>\<open>new Map(f.parameters.map((p) => [p.name, p]))\<close>\<close>

definition paramMap :: "FunctionSignature \<Rightarrow> (js_string \<times> ParameterSignature) list" where
  "paramMap f = new_Map (map (\<lambda>p. (p_name p, p)) (parameters f))"

text \<open>The first loop, over the entries of \<open>afterParams\<close>; \<open>changes\<close> is the array
  being pushed to (\<open>chs\<close>).\<close>

fun afterLoop ::
  "(js_string \<times> ParameterSignature) list \<Rightarrow> (js_string \<times> ParameterSignature) list \<Rightarrow>
   SignatureChange list \<Rightarrow> SignatureChange list" where
  "afterLoop beforeParams [] chs = chs"
| "afterLoop beforeParams ((name, afterParam) # rest) chs =
     (case Map_get beforeParams name of
        None \<Rightarrow>
          afterLoop beforeParams rest
            (chs @ [ParameterAdded afterParam (\<not> optional afterParam)])
      | Some beforeParam \<Rightarrow>
          if \<not> paramsEqual beforeParam afterParam
          then afterLoop beforeParams rest
                 (chs @ [ParameterTypeChanged beforeParam afterParam])
          else afterLoop beforeParams rest chs)"

text \<open>The second loop, over the entries of \<open>beforeParams\<close>.\<close>

fun beforeLoop ::
  "(js_string \<times> ParameterSignature) list \<Rightarrow> (js_string \<times> ParameterSignature) list \<Rightarrow>
   SignatureChange list \<Rightarrow> SignatureChange list" where
  "beforeLoop afterParams [] chs = chs"
| "beforeLoop afterParams ((name, beforeParam) # rest) chs =
     (if \<not> Map_has afterParams name
      then beforeLoop afterParams rest (chs @ [ParameterRemoved beforeParam])
      else beforeLoop afterParams rest chs)"

definition compareSignatures ::
  "FunctionSignature \<Rightarrow> FunctionSignature \<Rightarrow> SignatureChange list" where
  "compareSignatures before after =
     (let beforeParams = paramMap before;
          afterParams = paramMap after;
          changes1 = afterLoop beforeParams afterParams [];
          changes2 = beforeLoop afterParams beforeParams changes1;
          beforeReturn = normalizeForComparison (returnType before);
          afterReturn = normalizeForComparison (returnType after)
      in if beforeReturn \<noteq> afterReturn
         then changes2 @ [ReturnTypeChanged (returnType before) (returnType after)]
         else changes2)"

section \<open>Drift aggregator (analyzer/driftAnalyzer.ts)\<close>

definition computeHasBreakingChanges :: "FunctionDrift list \<Rightarrow> js_string list \<Rightarrow> bool" where
  "computeHasBreakingChanges modified removed =
     (if length removed > 0 then True
      else list_ex (\<lambda>fn. list_ex breaking (changes fn)) modified)"

definition computeSuggestedVersion ::
  "FunctionDrift list \<Rightarrow> js_string list \<Rightarrow> js_string list \<Rightarrow> SemverBump" where
  "computeSuggestedVersion modified added removed =
     (if length removed > 0 then Major
      else let hasBreakingModification =
                 list_ex (\<lambda>fn. list_ex breaking (changes fn)) modified
           in if hasBreakingModification then Major
              else if length added > 0 \<or> length modified > 0 then Minor
              else Patch)"

text \<open>The loop over \<open>afterKeys\<close>; the state is the pair of arrays \<open>addedFunctions\<close>
  and \<open>modifiedFunctions\<close>. A property that is absent reads as \<open>undefined\<close>, which
  is falsy.\<close>

fun afterKeysLoop ::
  "ProjectSnapshot \<Rightarrow> ProjectSnapshot \<Rightarrow> js_string list \<Rightarrow> js_string list \<Rightarrow>
   js_string list \<times> FunctionDrift list \<Rightarrow> js_string list \<times> FunctionDrift list" where
  "afterKeysLoop before after beforeKeys [] acc = acc"
| "afterKeysLoop before after beforeKeys (key # rest) (added, modified) =
     (if \<not> Set_has beforeKeys key
      then afterKeysLoop before after beforeKeys rest (added @ [key], modified)
      else
        (case (map_of (r_functions (symbols before)) key,
               map_of (r_functions (symbols after)) key) of
           (Some beforeFn, Some afterFn) \<Rightarrow>
             (let chs = compareSignatures beforeFn afterFn
              in if length chs > 0
                 then afterKeysLoop before after beforeKeys rest
                        (added,
                         modified @
                           [\<lparr>d_name = fn_name afterFn,
                             filePathBefore = filePath beforeFn,
                             filePathAfter = filePath afterFn,
                             changes = chs\<rparr>])
                 else afterKeysLoop before after beforeKeys rest (added, modified))
         | _ \<Rightarrow> afterKeysLoop before after beforeKeys rest (added, modified)))"

fun beforeKeysLoop :: "js_string list \<Rightarrow> js_string list \<Rightarrow> js_string list \<Rightarrow> js_string list" where
  "beforeKeysLoop afterKeys [] removed = removed"
| "beforeKeysLoop afterKeys (key # rest) removed =
     (if \<not> Set_has afterKeys key
      then beforeKeysLoop afterKeys rest (removed @ [key])
      else beforeKeysLoop afterKeys rest removed)"

text \<open>\<open>Array.prototype.sort()\<close> without a comparator orders strings by their code
  units, which is the lexicographic order of \<open>js_string\<close>.\<close>

definition compareSnapshots :: "ProjectSnapshot \<Rightarrow> ProjectSnapshot \<Rightarrow> DriftReport" where
  "compareSnapshots before after =
     (let beforeKeys = new_Set (map fst (r_functions (symbols before)));
          afterKeys = new_Set (map fst (r_functions (symbols after)));
          (added, modified) = afterKeysLoop before after beforeKeys afterKeys ([], []);
          removed = beforeKeysLoop afterKeys beforeKeys [];
          addedSorted = sort added;
          removedSorted = sort removed
      in \<lparr>modifiedFunctions = modified,
          addedFunctions = addedSorted,
          removedFunctions = removedSorted,
          hasBreakingChanges = computeHasBreakingChanges modified removedSorted,
          suggestedVersion = computeSuggestedVersion modified addedSorted removedSorted\<rparr>)"

section \<open>Values and errors of JavaScript\<close>

text \<open>
  A run-time value. An object is the list of its own properties, and reading a
  property that is absent gives \<open>undefined\<close>.
\<close>

datatype js_value =
    JUndefined
  | JNull
  | JBoolean bool
  | JNumber js_number
  | JString js_string
  | JArray "js_value list"
  | JObject "(js_string \<times> js_value) list"

text \<open>\<open>throw new Error(message)\<close>, and an error that a function of the file system
  throws, given by its code (\<open>err.code\<close>: \<open>EISDIR\<close>, \<open>ENOTDIR\<close>, \<open>ENOENT\<close>,
  \<open>EEXIST\<close>).\<close>

datatype error = Error js_string | SystemError string

definition get_prop :: "js_value \<Rightarrow> string \<Rightarrow> js_value" where
  "get_prop v k =
     (case v of
        JObject ps \<Rightarrow> (case map_of ps (u16 k) of Some x \<Rightarrow> x | None \<Rightarrow> JUndefined)
      | _ \<Rightarrow> JUndefined)"

text \<open>\<open>typeof v === "object" && v !== null\<close> holds of objects and arrays;
  \<open>typeof v === "number"\<close> of numbers.\<close>

fun is_object :: "js_value \<Rightarrow> bool" where
  "is_object (JObject ps) = True"
| "is_object (JArray vs) = True"
| "is_object v = False"

fun is_number :: "js_value \<Rightarrow> bool" where
  "is_number (JNumber n) = True"
| "is_number v = False"

section \<open>Paths (the POSIX functions of Node's \<open>path\<close> module)\<close>

text \<open>
  \<open>path.resolve\<close>, \<open>path.relative\<close> and \<open>path.dirname\<close> belong to the platform. They
  are modelled on the segments between slashes, as the platform documents them for
  absolute paths: \<open>resolve\<close> joins its arguments from the right until one is absolute
  (the working directory comes last), then drops empty and \<open>.\<close> segments and lets
  \<open>..\<close> remove the segment before it; \<open>relative\<close> resolves both paths, climbs with
  \<open>..\<close> out of what \<open>from\<close> does not share with \<open>to\<close> and descends into the rest of
  \<open>to\<close>.
\<close>

definition slash :: code_unit where
  "slash = 0x2F"

definition dot :: js_string where
  "dot = [0x2E]"

definition dotdot :: js_string where
  "dotdot = [0x2E, 0x2E]"

fun segments :: "js_string \<Rightarrow> js_string list" where
  "segments [] = [[]]"
| "segments (c # cs) =
     (if c = slash then [] # segments cs
      else case segments cs of s # ss \<Rightarrow> (c # s) # ss | [] \<Rightarrow> [[c]])"

fun joinPath :: "js_string list \<Rightarrow> js_string" where
  "joinPath [] = []"
| "joinPath [s] = s"
| "joinPath (s # ss) = s @ slash # joinPath ss"

definition normStep :: "bool \<Rightarrow> js_string list \<Rightarrow> js_string \<Rightarrow> js_string list" where
  "normStep allowAboveRoot res seg =
     (if seg = [] \<or> seg = dot then res
      else if seg = dotdot then
        (if res \<noteq> [] \<and> last res \<noteq> dotdot then butlast res
         else if allowAboveRoot then res @ [dotdot]
         else res)
      else res @ [seg])"

definition normalizeString :: "js_string \<Rightarrow> bool \<Rightarrow> js_string" where
  "normalizeString path allowAboveRoot =
     joinPath (foldl (normStep allowAboveRoot) [] (segments path))"

text \<open>The loop of \<open>resolve\<close> over its arguments, last argument first and the working
  directory at the end; empty arguments are skipped, and the loop stops once the path
  is absolute.\<close>

fun resolveLoop :: "js_string list \<Rightarrow> js_string \<Rightarrow> bool \<Rightarrow> js_string \<times> bool" where
  "resolveLoop [] resolvedPath resolvedAbsolute = (resolvedPath, resolvedAbsolute)"
| "resolveLoop (p # ps) resolvedPath resolvedAbsolute =
     (if resolvedAbsolute then (resolvedPath, resolvedAbsolute)
      else if p = [] then resolveLoop ps resolvedPath resolvedAbsolute
      else resolveLoop ps (p @ slash # resolvedPath) (hd p = slash))"

definition path_resolve :: "js_string \<Rightarrow> js_string list \<Rightarrow> js_string" where
  "path_resolve cwd args =
     (let (resolvedPath, resolvedAbsolute) = resolveLoop (rev args @ [cwd]) [] False;
          normalized = normalizeString resolvedPath (\<not> resolvedAbsolute)
      in if resolvedAbsolute then slash # normalized
         else if length normalized > 0 then normalized
         else dot)"

fun commonPrefix :: "js_string list \<Rightarrow> js_string list \<Rightarrow> nat" where
  "commonPrefix (x # xs) (y # ys) = (if x = y then Suc (commonPrefix xs ys) else 0)"
| "commonPrefix xs ys = 0"

definition pathSegments :: "js_string \<Rightarrow> js_string list" where
  "pathSegments p = filter (\<lambda>s. s \<noteq> []) (segments p)"

definition path_relative :: "js_string \<Rightarrow> js_string \<Rightarrow> js_string \<Rightarrow> js_string" where
  "path_relative cwd from to =
     (if from = to then []
      else
        let from' = path_resolve cwd [from];
            to' = path_resolve cwd [to]
        in if from' = to' then []
           else
             let fs = pathSegments from';
                 ts = pathSegments to';
                 n = commonPrefix fs ts
             in joinPath (replicate (length fs - n) dotdot @ drop n ts))"

text \<open>\<open>path.dirname\<close> of a resolved path: the path without its last segment.\<close>

definition path_dirname :: "js_string \<Rightarrow> js_string" where
  "path_dirname p = slash # joinPath (butlast (pathSegments p))"

section \<open>Validator (security/validation.ts)\<close>

text \<open>\<open>/[\x00-\x1f\x7f]/\<close>\<close>

definition isControl :: "code_unit \<Rightarrow> bool" where
  "isControl c \<longleftrightarrow> c \<le> 0x1F \<or> c = 0x7F"

text \<open>\<open>UNSAFE_REF_CHARS\<close>: double quote, single quote, backtick, dollar, backslash,
  semicolon, pipe, ampersand, angle brackets, parentheses and white space.\<close>

definition UNSAFE_REF_CHARS :: "code_unit \<Rightarrow> bool" where
  "UNSAFE_REF_CHARS c \<longleftrightarrow>
     c = 0x22 \<or> c = 0x27 \<or> c = 0x60 \<or> c = 0x24 \<or> c = 0x5C \<or> c = 0x3B \<or> c = 0x7C \<or>
     c = 0x26 \<or> c = 0x3C \<or> c = 0x3E \<or> c = 0x28 \<or> c = 0x29 \<or> isWhiteSpace c"

definition MAX_PATH_LENGTH :: nat where
  "MAX_PATH_LENGTH = 4096"

definition validateGitRef :: "js_value \<Rightarrow> error + js_string" where
  "validateGitRef ref =
     (case ref of
        JString s \<Rightarrow>
          (let trimmed = trim s
           in if length trimmed = 0 then Inl (Error (u16 ''Git ref cannot be empty''))
              else if length trimmed > 256
              then Inl (Error (u16 ''Git ref exceeds maximum length (256)''))
              else if list_ex isControl s \<or> list_ex UNSAFE_REF_CHARS s
              then Inl (Error (u16
                ''Git ref contains invalid characters. Use only alphanumeric, hyphens, dots, slashes.''))
              else Inr trimmed)
      | _ \<Rightarrow> Inl (Error (u16 ''Git ref must be a string'')))"

text \<open>\<open>cwd\<close> is what \<open>process.cwd()\<close> returns; \<open>baseDir\<close> is \<open>None\<close> when the argument
  is left out.\<close>

definition validatePath :: "js_string \<Rightarrow> js_value \<Rightarrow> js_string option \<Rightarrow> error + js_string" where
  "validatePath cwd path baseDir =
     (case path of
        JString s \<Rightarrow>
          (let trimmed = trim s
           in if length trimmed = 0 then Inl (Error (u16 ''Path cannot be empty''))
              else if length trimmed > MAX_PATH_LENGTH
              then Inl (Error (u16 ''Path exceeds maximum length ('' @
                     Number_toString (SafeInteger (int MAX_PATH_LENGTH)) @ u16 '')''))
              else
                let base = path_resolve cwd [case baseDir of None \<Rightarrow> cwd | Some b \<Rightarrow> b];
                    resolved = path_resolve cwd [base, trimmed];
                    rel = path_relative cwd base resolved
                in if startsWith rel (u16 ''..'') \<or> startsWith rel (u16 ''/'')
                   then Inl (Error (u16 ''Path resolves outside allowed directory''))
                   else Inr resolved)
      | _ \<Rightarrow> Inl (Error (u16 ''Path must be a string'')))"

section \<open>Typed values as run-time objects\<close>

text \<open>The object that a value of each interface of \<open>types.ts\<close> is at run time, with
  its properties in the order in which the extractor and the store write them. An
  optional field that is \<open>undefined\<close> is a property whose value is \<open>undefined\<close>.\<close>

definition ParameterSignature_toJS :: "ParameterSignature \<Rightarrow> js_value" where
  "ParameterSignature_toJS p =
     JObject [(u16 ''name'', JString (p_name p)), (u16 ''type'', JString (p_type p)),
              (u16 ''optional'', JBoolean (optional p))]"

definition FunctionSignature_toJS :: "FunctionSignature \<Rightarrow> js_value" where
  "FunctionSignature_toJS f =
     JObject [(u16 ''name'', JString (fn_name f)),
              (u16 ''parameters'', JArray (map ParameterSignature_toJS (parameters f))),
              (u16 ''returnType'', JString (returnType f)),
              (u16 ''filePath'', JString (filePath f)),
              (u16 ''isExported'', JBoolean (isExported f))]"

definition InterfaceProperty_toJS :: "InterfaceProperty \<Rightarrow> js_value" where
  "InterfaceProperty_toJS p =
     JObject [(u16 ''name'', JString (ip_name p)), (u16 ''type'', JString (ip_type p)),
              (u16 ''optional'', JBoolean (ip_optional p))]"

definition InterfaceDefinition_toJS :: "InterfaceDefinition \<Rightarrow> js_value" where
  "InterfaceDefinition_toJS d =
     JObject [(u16 ''name'', JString (if_name d)),
              (u16 ''properties'', JArray (map InterfaceProperty_toJS (properties d))),
              (u16 ''filePath'', JString (if_filePath d))]"

definition TypeAliasDefinition_toJS :: "TypeAliasDefinition \<Rightarrow> js_value" where
  "TypeAliasDefinition_toJS d =
     JObject [(u16 ''name'', JString (ta_name d)),
              (u16 ''definition'', JString (definition_text d)),
              (u16 ''filePath'', JString (ta_filePath d))]"

definition SymbolRegistry_toJS :: "SymbolRegistry \<Rightarrow> js_value" where
  "SymbolRegistry_toJS r =
     JObject [(u16 ''functions'',
                 JObject (map (\<lambda>e. (fst e, FunctionSignature_toJS (snd e))) (r_functions r))),
              (u16 ''interfaces'',
                 JObject (map (\<lambda>e. (fst e, InterfaceDefinition_toJS (snd e))) (r_interfaces r))),
              (u16 ''types'',
                 JObject (map (\<lambda>e. (fst e, TypeAliasDefinition_toJS (snd e))) (r_types r)))]"

definition ProjectSnapshot_toJS :: "ProjectSnapshot \<Rightarrow> js_value" where
  "ProjectSnapshot_toJS s = JObject [(u16 ''symbols'', SymbolRegistry_toJS (symbols s))]"

definition optional_toJS :: "js_string option \<Rightarrow> js_value" where
  "optional_toJS x = (case x of None \<Rightarrow> JUndefined | Some s \<Rightarrow> JString s)"

definition StoredSnapshot_toJS :: "StoredSnapshot \<Rightarrow> js_value" where
  "StoredSnapshot_toJS st =
     JObject [(u16 ''metadata'',
                 JObject [(u16 ''version'', JNumber (version (metadata st))),
                          (u16 ''createdAt'', JString (createdAt (metadata st))),
                          (u16 ''tsConfigPath'', JString (tsConfigPath (metadata st))),
                          (u16 ''gitRef'', optional_toJS (gitRef (metadata st))),
                          (u16 ''gitSha'', optional_toJS (gitSha (metadata st)))]),
              (u16 ''snapshot'', ProjectSnapshot_toJS (snapshot st))]"

section \<open>JSON and the file system\<close>

text \<open>
  \<open>JSON.stringify\<close> and \<open>JSON.parse\<close> belong to the platform. The text of a file is
  not modelled character by character: a file holds either a JSON text, identified
  with the value that \<open>JSON.parse\<close> returns for it, or a text that \<open>JSON.parse\<close>
  rejects, with the message of its \<open>SyntaxError\<close>. What \<open>JSON.stringify\<close> writes for a
  value parses back to that value without the properties whose value is \<open>undefined\<close>,
  with \<open>null\<close> for an \<open>undefined\<close> element of an array, and with \<open>null\<close> for \<open>NaN\<close>
  and the infinities.
\<close>

datatype file_content = JsonText js_value | OtherText js_string

fun jsonValue :: "js_value \<Rightarrow> js_value" where
  "jsonValue (JObject ps) =
     JObject (map (\<lambda>e. (fst e, jsonValue (snd e))) (filter (\<lambda>e. snd e \<noteq> JUndefined) ps))"
| "jsonValue (JArray vs) = JArray (map (\<lambda>v. if v = JUndefined then JNull else jsonValue v) vs)"
| "jsonValue (JNumber (OtherNumber t)) =
     (if t = u16 ''NaN'' \<or> t = u16 ''Infinity'' \<or> t = u16 ''-Infinity'' then JNull
      else JNumber (OtherNumber t))"
| "jsonValue v = v"

definition JSON_stringify :: "js_value \<Rightarrow> file_content" where
  "JSON_stringify v = JsonText (jsonValue v)"

text \<open>\<open>JSON.parse\<close> returns the value, or throws a \<open>SyntaxError\<close>, given by its
  message.\<close>

definition JSON_parse :: "file_content \<Rightarrow> js_string + js_value" where
  "JSON_parse raw = (case raw of JsonText v \<Rightarrow> Inr v | OtherText message \<Rightarrow> Inl message)"

text \<open>
  The state of the process and of its surroundings: the working directory
  (\<open>process.cwd()\<close>), the time stamp that \<open>new Date().toISOString()\<close> returns, the
  files and the directories by their absolute paths, and the version-control
  toolchain. The functions of the file system fail as the kinds of the paths make them
  fail (a directory where a file is written or read, a file where a directory is
  needed, a directory that is missing); failures that do not depend on the paths
  (permissions, a full disk) are not modelled. The toolchain is given by what its
  commands answer:
  whether a directory is inside a work tree; for a working directory, a ref, the path
  of the project configuration as given and as validated, and the flag
  \<open>installDeps\<close>, the snapshot that the extractor produces in a detached work tree
  of the ref (the steps of \<open>snapshotFromGitRef\<close> from \<open>git worktree add\<close> to
  \<open>normalizeSnapshotPaths\<close>, which leave the files of the caller as they are), or
  the error that one of them raises; and the commit that \<open>git rev-parse\<close> prints for
  a ref, if any.
\<close>

record world =
  process_cwd :: js_string
  clock_now :: js_string
  files :: "js_string \<Rightarrow> file_content option"
  dirs :: "js_string set"
  git_isInsideWorkTree :: "js_string \<Rightarrow> bool"
  git_worktreeSnapshot ::
    "js_string \<Rightarrow> js_string \<Rightarrow> js_string \<Rightarrow> js_string \<Rightarrow> bool \<Rightarrow> error + ProjectSnapshot"
  git_revParse :: "js_string \<Rightarrow> js_string option"

definition existsSync :: "world \<Rightarrow> js_string \<Rightarrow> bool" where
  "existsSync w p \<longleftrightarrow> files w p \<noteq> None \<or> p \<in> dirs w"

text \<open>A directory and its ancestors, the root first.\<close>

definition ancestors :: "js_string \<Rightarrow> js_string list" where
  "ancestors dir =
     map (\<lambda>n. slash # joinPath (take n (pathSegments dir))) [0..<Suc (length (pathSegments dir))]"

text \<open>\<open>mkdirSync(dir, { recursive: true })\<close> creates the directory and its ancestors
  that are missing. It throws when the path is a file (\<open>EEXIST\<close>) or one of its
  ancestors is (\<open>ENOTDIR\<close>).\<close>

definition mkdirSync_recursive :: "world \<Rightarrow> js_string \<Rightarrow> error + world" where
  "mkdirSync_recursive w dir =
     (if files w dir \<noteq> None then Inl (SystemError ''EEXIST'')
      else if list_ex (\<lambda>q. files w q \<noteq> None) (ancestors dir) then Inl (SystemError ''ENOTDIR'')
      else Inr (w\<lparr>dirs := dirs w \<union> set (ancestors dir)\<rparr>))"

text \<open>\<open>writeFileSync(p, content)\<close> creates or replaces the file. It throws when the
  path is a directory (\<open>EISDIR\<close>), when the directory of the path or one of its
  ancestors is a file (\<open>ENOTDIR\<close>), and when the directory of the path does not exist
  (\<open>ENOENT\<close>).\<close>

definition writeFileSync :: "world \<Rightarrow> js_string \<Rightarrow> file_content \<Rightarrow> error + world" where
  "writeFileSync w p content =
     (if p \<in> dirs w then Inl (SystemError ''EISDIR'')
      else if list_ex (\<lambda>q. files w q \<noteq> None) (ancestors (path_dirname p))
      then Inl (SystemError ''ENOTDIR'')
      else if path_dirname p \<notin> dirs w then Inl (SystemError ''ENOENT'')
      else Inr (w\<lparr>files := (files w)(p \<mapsto> content)\<rparr>))"

text \<open>\<open>readFileSync\<close> is called on a path that exists; a path that is not a file is a
  directory, and reading it throws \<open>EISDIR\<close>.\<close>

definition readFileSync :: "world \<Rightarrow> js_string \<Rightarrow> error + file_content" where
  "readFileSync w p =
     (case files w p of
        Some content \<Rightarrow> Inr content
      | None \<Rightarrow> Inl (SystemError ''EISDIR''))"

section \<open>Snapshot store (persistence/snapshotStorage.ts)\<close>

record SaveSnapshotOptions =
  so_outputPath :: "js_string option"
  so_baseDir :: "js_string option"
  so_gitRef :: "js_string option"
  so_gitSha :: "js_string option"

record LoadSnapshotOptions =
  lo_baseDir :: "js_string option"

definition DEFAULT_OUTPUT_PATH :: js_string where
  "DEFAULT_OUTPUT_PATH = u16 ''.flowlock/snapshot.json''"

text \<open>The result is the path where the snapshot was saved, with the new state, or the
  error of the first step that throws.\<close>

definition saveSnapshot ::
  "world \<Rightarrow> ProjectSnapshot \<Rightarrow> js_string \<Rightarrow> SaveSnapshotOptions \<Rightarrow> error + js_string \<times> world" where
  "saveSnapshot w snap tsConfig options =
     (let baseDir = (case so_baseDir options of None \<Rightarrow> process_cwd w | Some b \<Rightarrow> b)
      in case validatePath (process_cwd w)
                (JString (case so_outputPath options of None \<Rightarrow> DEFAULT_OUTPUT_PATH | Some p \<Rightarrow> p))
                (Some baseDir) of
           Inl e \<Rightarrow> Inl e
         | Inr outputPath \<Rightarrow>
             (case validatePath (process_cwd w) (JString tsConfig) (Some baseDir) of
                Inl e \<Rightarrow> Inl e
              | Inr resolvedTsConfig \<Rightarrow>
                  (let stored =
                         \<lparr>metadata =
                            \<lparr>version = SNAPSHOT_FORMAT_VERSION,
                             createdAt = clock_now w,
                             tsConfigPath = resolvedTsConfig,
                             gitRef = so_gitRef options,
                             gitSha = so_gitSha options\<rparr>,
                          snapshot = snap\<rparr>;
                       dir = path_dirname outputPath
                   in case (if \<not> existsSync w dir then mkdirSync_recursive w dir else Inr w) of
                        Inl e \<Rightarrow> Inl e
                      | Inr w1 \<Rightarrow>
                          (case writeFileSync w1 outputPath
                                  (JSON_stringify (StoredSnapshot_toJS stored)) of
                             Inl e \<Rightarrow> Inl e
                           | Inr w2 \<Rightarrow> Inr (outputPath, w2)))))"

definition isStoredSnapshot :: "js_value \<Rightarrow> bool" where
  "isStoredSnapshot v \<longleftrightarrow>
     is_object v \<and>
     is_object (get_prop v ''metadata'') \<and>
     is_number (get_prop (get_prop v ''metadata'') ''version'') \<and>
     is_object (get_prop v ''snapshot'')"

text \<open>\<open>`${n}`\<close> for a property that holds a number.\<close>

fun template_number :: "js_value \<Rightarrow> js_string" where
  "template_number (JNumber n) = Number_toString n"
| "template_number v = []"

definition loadSnapshot :: "world \<Rightarrow> js_string \<Rightarrow> LoadSnapshotOptions \<Rightarrow> error + js_value" where
  "loadSnapshot w path options =
     (let baseDir = (case lo_baseDir options of None \<Rightarrow> process_cwd w | Some b \<Rightarrow> b)
      in case validatePath (process_cwd w) (JString path) (Some baseDir) of
           Inl e \<Rightarrow> Inl e
         | Inr resolvedPath \<Rightarrow>
             if \<not> existsSync w resolvedPath
             then Inl (Error (u16 ''Snapshot file not found: '' @ resolvedPath))
             else
               (case readFileSync w resolvedPath of
                  Inl e \<Rightarrow> Inl e
                | Inr raw \<Rightarrow>
                    (case JSON_parse raw of
                       Inl message \<Rightarrow>
                         Inl (Error (u16 ''Invalid snapshot file (not valid JSON): '' @ message))
                     | Inr parsed \<Rightarrow>
                         if \<not> isStoredSnapshot parsed
                         then Inl (Error (u16
                           ''Invalid snapshot file: missing required fields (metadata, snapshot)''))
                         else if get_prop (get_prop parsed ''metadata'') ''version'' \<noteq>
                                   JNumber SNAPSHOT_FORMAT_VERSION
                         then Inl (Error
                           (u16 ''Unsupported snapshot version: '' @
                            template_number (get_prop (get_prop parsed ''metadata'') ''version'') @
                            u16 ''. Current version is '' @
                            Number_toString SNAPSHOT_FORMAT_VERSION @
                            u16 ''. Please regenerate the snapshot.''))
                         else Inr parsed)))"

section \<open>Snapshots of a git ref (git/snapshotFromGit.ts)\<close>

record SnapshotFromGitOptions =
  g_cwd :: "js_string option"
  installDeps :: "bool option"

definition isGitRepository :: "world \<Rightarrow> js_string \<Rightarrow> bool" where
  "isGitRepository w dir = git_isInsideWorkTree w dir"

definition getGitSha :: "world \<Rightarrow> js_string \<Rightarrow> js_string option" where
  "getGitSha w ref = git_revParse w ref"

definition snapshotFromGitRef ::
  "world \<Rightarrow> js_string \<Rightarrow> js_string \<Rightarrow> SnapshotFromGitOptions \<Rightarrow> error + StoredSnapshot" where
  "snapshotFromGitRef w tsConfig ref options =
     (let cwd = (case g_cwd options of None \<Rightarrow> process_cwd w | Some c \<Rightarrow> c)
      in case validateGitRef (JString ref) of
           Inl e \<Rightarrow> Inl e
         | Inr safeRef \<Rightarrow>
             (case validatePath (process_cwd w) (JString tsConfig) (Some cwd) of
                Inl e \<Rightarrow> Inl e
              | Inr safeTsConfig \<Rightarrow>
                  if \<not> isGitRepository w cwd
                  then Inl (Error (u16 ''Not a git repository: '' @ cwd))
                  else
                    (case git_worktreeSnapshot w cwd safeRef tsConfig safeTsConfig
                            (case installDeps options of None \<Rightarrow> False | Some b \<Rightarrow> b) of
                       Inl e \<Rightarrow> Inl e
                     | Inr snap \<Rightarrow>
                         Inr \<lparr>metadata =
                                \<lparr>version = SNAPSHOT_FORMAT_VERSION,
                                 createdAt = clock_now w,
                                 tsConfigPath = path_resolve (process_cwd w) [cwd, tsConfig],
                                 gitRef = Some safeRef,
                                 gitSha = getGitSha w safeRef\<rparr>,
                              snapshot = snap\<rparr>)))"

text \<open>\<open>/[^a-zA-Z0-9.-]/\<close>: every code unit but the ASCII letters, the digits, the dot
  and the hyphen.\<close>

definition isRefFileChar :: "code_unit \<Rightarrow> bool" where
  "isRefFileChar c \<longleftrightarrow>
     (0x61 \<le> c \<and> c \<le> 0x7A) \<or> (0x41 \<le> c \<and> c \<le> 0x5A) \<or> (0x30 \<le> c \<and> c \<le> 0x39) \<or>
     c = 0x2E \<or> c = 0x2D"

text \<open>\<open>gitRef.replace(/[^a-zA-Z0-9.-]/g, "_")\<close>\<close>

definition replaceUnsafe :: "js_string \<Rightarrow> js_string" where
  "replaceUnsafe ref = map (\<lambda>c. if isRefFileChar c then c else 0x5F) ref"

definition saveSnapshotFromGitRef ::
  "world \<Rightarrow> js_string \<Rightarrow> js_string \<Rightarrow> js_string option \<Rightarrow> SnapshotFromGitOptions \<Rightarrow>
   error + js_string \<times> world" where
  "saveSnapshotFromGitRef w tsConfig ref outputPath options =
     (case snapshotFromGitRef w tsConfig ref options of
        Inl e \<Rightarrow> Inl e
      | Inr stored \<Rightarrow>
          (let safeRef = replaceUnsafe ref;
               outPath = (case outputPath of
                            None \<Rightarrow> u16 ''.flowlock/baseline-'' @ safeRef @ u16 ''.json''
                          | Some p \<Rightarrow> p);
               cwd = (case g_cwd options of None \<Rightarrow> process_cwd w | Some c \<Rightarrow> c)
           in saveSnapshot w (snapshot stored) (path_resolve (process_cwd w) [cwd, tsConfig])
                \<lparr>so_outputPath = Some outPath, so_baseDir = Some cwd, so_gitRef = Some ref,
                 so_gitSha = gitSha (metadata stored)\<rparr>))"

section \<open>Auxiliary notions used in the statements\<close>

text \<open>What one entry of \<open>afterParams\<close> contributes in the first loop, what one entry
  of \<open>beforeParams\<close> contributes in the second, and the contribution of the return
  types.\<close>

definition afterChange ::
  "(js_string \<times> ParameterSignature) list \<Rightarrow> js_string \<times> ParameterSignature \<Rightarrow> SignatureChange list" where
  "afterChange beforeParams e =
     (case Map_get beforeParams (fst e) of
        None \<Rightarrow> [ParameterAdded (snd e) (\<not> optional (snd e))]
      | Some beforeParam \<Rightarrow>
          if \<not> paramsEqual beforeParam (snd e)
          then [ParameterTypeChanged beforeParam (snd e)] else [])"

definition beforeChange ::
  "(js_string \<times> ParameterSignature) list \<Rightarrow> js_string \<times> ParameterSignature \<Rightarrow> SignatureChange list" where
  "beforeChange afterParams e =
     (if \<not> Map_has afterParams (fst e) then [ParameterRemoved (snd e)] else [])"

definition returnChange :: "FunctionSignature \<Rightarrow> FunctionSignature \<Rightarrow> SignatureChange list" where
  "returnChange before after =
     (if normalizeForComparison (returnType before) \<noteq> normalizeForComparison (returnType after)
      then [ReturnTypeChanged (returnType before) (returnType after)] else [])"

text \<open>No drift between two signatures, as the comparator sees it: the two parameter
  maps have the same names, each name has equal parameters on both sides, and the
  normalized return types are equal.\<close>

definition noDrift :: "FunctionSignature \<Rightarrow> FunctionSignature \<Rightarrow> bool" where
  "noDrift before after \<longleftrightarrow>
     (\<forall>n. rel_option paramsEqual (Map_get (paramMap before) n) (Map_get (paramMap after) n)) \<and>
     normalizeForComparison (returnType before) = normalizeForComparison (returnType after)"

text \<open>Some change of some modified function is breaking.\<close>

definition anyBreaking :: "FunctionDrift list \<Rightarrow> bool" where
  "anyBreaking modified = list_ex (\<lambda>fn. list_ex breaking (changes fn)) modified"

text \<open>What one key of \<open>afterKeys\<close> contributes to \<open>modifiedFunctions\<close>, and the three
  lists of the report before sorting.\<close>

definition driftAt ::
  "ProjectSnapshot \<Rightarrow> ProjectSnapshot \<Rightarrow> js_string list \<Rightarrow> js_string \<Rightarrow> FunctionDrift list" where
  "driftAt before after beforeKeys key =
     (if \<not> Set_has beforeKeys key then []
      else case (map_of (r_functions (symbols before)) key,
                 map_of (r_functions (symbols after)) key) of
             (Some beforeFn, Some afterFn) \<Rightarrow>
               if compareSignatures beforeFn afterFn \<noteq> []
               then [\<lparr>d_name = fn_name afterFn, filePathBefore = filePath beforeFn,
                      filePathAfter = filePath afterFn,
                      changes = compareSignatures beforeFn afterFn\<rparr>]
               else []
           | _ \<Rightarrow> [])"

definition addedKeys :: "ProjectSnapshot \<Rightarrow> ProjectSnapshot \<Rightarrow> js_string list" where
  "addedKeys b a =
     filter (\<lambda>k. \<not> Set_has (new_Set (map fst (r_functions (symbols b)))) k)
       (new_Set (map fst (r_functions (symbols a))))"

definition removedKeys :: "ProjectSnapshot \<Rightarrow> ProjectSnapshot \<Rightarrow> js_string list" where
  "removedKeys b a =
     filter (\<lambda>k. \<not> Set_has (new_Set (map fst (r_functions (symbols a)))) k)
       (new_Set (map fst (r_functions (symbols b))))"

definition modifiedDrifts :: "ProjectSnapshot \<Rightarrow> ProjectSnapshot \<Rightarrow> FunctionDrift list" where
  "modifiedDrifts b a =
     concat (map (driftAt b a (new_Set (map fst (r_functions (symbols b)))))
       (new_Set (map fst (r_functions (symbols a)))))"

text \<open>The tag \<open>type\<close> of a change, the name of the parameter it is about, and the
  phase of the comparator that emits it (0: the loop over \<open>afterParams\<close>, 1: the loop
  over \<open>beforeParams\<close>, 2: the return types).\<close>

datatype ChangeType =
  parameter_added | parameter_removed | parameter_type_changed | return_type_changed

fun change_type :: "SignatureChange \<Rightarrow> ChangeType" where
  "change_type (ParameterAdded p b) = parameter_added"
| "change_type (ParameterRemoved p) = parameter_removed"
| "change_type (ParameterTypeChanged p q) = parameter_type_changed"
| "change_type (ReturnTypeChanged r s) = return_type_changed"

fun changeParamName :: "SignatureChange \<Rightarrow> js_string option" where
  "changeParamName (ParameterAdded p b) = Some (p_name p)"
| "changeParamName (ParameterRemoved p) = Some (p_name p)"
| "changeParamName (ParameterTypeChanged p q) = Some (p_name q)"
| "changeParamName (ReturnTypeChanged r s) = None"

fun changePhase :: "SignatureChange \<Rightarrow> nat" where
  "changePhase (ParameterAdded p b) = 0"
| "changePhase (ParameterTypeChanged p q) = 0"
| "changePhase (ParameterRemoved p) = 1"
| "changePhase (ReturnTypeChanged r s) = 2"



text \<open>A plain segment of a path: not empty, neither \<open>.\<close> nor \<open>..\<close>, without a slash.
  \<open>absPath\<close> is the absolute path with the given segments, and a path is absolute when
  it starts with a slash.\<close>

definition plain :: "js_string \<Rightarrow> bool" where
  "plain s \<longleftrightarrow> s \<noteq> [] \<and> s \<noteq> dot \<and> s \<noteq> dotdot \<and> slash \<notin> set s"

definition absPath :: "js_string list \<Rightarrow> js_string" where
  "absPath ns = slash # joinPath ns"

definition isAbsolute :: "js_string \<Rightarrow> bool" where
  "isAbsolute p \<longleftrightarrow> p \<noteq> [] \<and> hd p = slash"

text \<open>The base directory as \<open>validatePath\<close> resolves it.\<close>

definition resolvedBase :: "js_string \<Rightarrow> js_string option \<Rightarrow> js_string" where
  "resolvedBase cwd baseDir = path_resolve cwd [case baseDir of None \<Rightarrow> cwd | Some b \<Rightarrow> b]"

text \<open>The metadata of a stored snapshot as it is read back: the optional fields
  that are \<open>undefined\<close> are absent, and the version is as \<open>JSON.stringify\<close> writes
  it.\<close>

definition metadata_json :: "StoredSnapshotMetadata \<Rightarrow> js_value" where
  "metadata_json m =
     JObject
       ([(u16 ''version'', jsonValue (JNumber (version m))),
         (u16 ''createdAt'', JString (createdAt m)),
         (u16 ''tsConfigPath'', JString (tsConfigPath m))] @
        (case gitRef m of None \<Rightarrow> [] | Some r \<Rightarrow> [(u16 ''gitRef'', JString r)]) @
        (case gitSha m of None \<Rightarrow> [] | Some h \<Rightarrow> [(u16 ''gitSha'', JString h)]))"

text \<open>The output path that \<open>saveSnapshot\<close> validates, the base directory it
  validates against, and the envelope it writes.\<close>

definition outputArg :: "SaveSnapshotOptions \<Rightarrow> js_string" where
  "outputArg options = (case so_outputPath options of None \<Rightarrow> DEFAULT_OUTPUT_PATH | Some p \<Rightarrow> p)"

definition saveBase :: "world \<Rightarrow> SaveSnapshotOptions \<Rightarrow> js_string" where
  "saveBase w options = (case so_baseDir options of None \<Rightarrow> process_cwd w | Some b \<Rightarrow> b)"

definition storedBy ::
  "world \<Rightarrow> ProjectSnapshot \<Rightarrow> js_string \<Rightarrow> SaveSnapshotOptions \<Rightarrow> StoredSnapshot" where
  "storedBy w snap resolvedTsConfig options =
     \<lparr>metadata =
        \<lparr>version = SNAPSHOT_FORMAT_VERSION, createdAt = clock_now w,
         tsConfigPath = resolvedTsConfig, gitRef = so_gitRef options,
         gitSha = so_gitSha options\<rparr>,
      snapshot = snap\<rparr>"

text \<open>The default file name of \<open>saveSnapshotFromGitRef\<close> for a ref.\<close>

definition baselineName :: "js_string \<Rightarrow> js_string" where
  "baselineName ref =
     u16 ''baseline-'' @ map (\<lambda>c. if isRefFileChar c then c else 0x5F) ref @ u16 ''.json''"

section \<open>Example inputs\<close>

definition param :: "string \<Rightarrow> string \<Rightarrow> bool \<Rightarrow> ParameterSignature" where
  "param n t opt = \<lparr>p_name = u16 n, p_type = u16 t, optional = opt\<rparr>"

definition func :: "string \<Rightarrow> ParameterSignature list \<Rightarrow> string \<Rightarrow> FunctionSignature" where
  "func n ps r =
     \<lparr>fn_name = u16 n, parameters = ps, returnType = u16 r,
      filePath = u16 ''/repo/api.ts'', isExported = True\<rparr>"

definition snapshotOf :: "(string \<times> FunctionSignature) list \<Rightarrow> ProjectSnapshot" where
  "snapshotOf fns =
     \<lparr>symbols = \<lparr>r_functions = map (\<lambda>(k, f). (u16 k, f)) fns, r_interfaces = [], r_types = []\<rparr>\<rparr>"


text \<open>Scenario A of the specification: \<open>greet(name: string): string\<close>, then with an
  optional and with a required second parameter.\<close>

definition greet_before :: FunctionSignature where
  "greet_before = func ''greet'' [param ''name'' ''string'' False] ''string''"

definition greet_optional :: FunctionSignature where
  "greet_optional =
     func ''greet'' [param ''name'' ''string'' False, param ''greeting'' ''string'' True] ''string''"

definition greet_required :: FunctionSignature where
  "greet_required =
     func ''greet'' [param ''name'' ''string'' False, param ''greeting'' ''string'' False] ''string''"

text \<open>A state in which \<open>/repo\<close> is a repository whose refs all hold \<open>greet\<close>, the
  document of the test of the unsupported version, and the same document with the
  version 1.5.\<close>

definition example_world :: world where
  "example_world =
     \<lparr>process_cwd = u16 ''/repo'',
      clock_now = u16 ''2025-02-23T12:00:00.000Z'',
      files = Map.empty,
      dirs = {u16 ''/'', u16 ''/repo''},
      git_isInsideWorkTree = (\<lambda>dir. dir = u16 ''/repo''),
      git_worktreeSnapshot =
        (\<lambda>cwd ref tsConfig safeTsConfig install.
           Inr (snapshotOf [(''fn:/repo/api.ts::greet'', greet_before)])),
      git_revParse = (\<lambda>ref. Some (u16 ''abc1234''))\<rparr>"

definition version99_document :: js_value where
  "version99_document =
     JObject
       [(u16 ''metadata'',
           JObject [(u16 ''version'', JNumber (SafeInteger 99)),
                    (u16 ''createdAt'', JString (u16 ''2025-02-23T12:00:00.000Z'')),
                    (u16 ''tsConfigPath'', JString (u16 ''/''))]),
        (u16 ''snapshot'',
           JObject [(u16 ''symbols'',
              JObject [(u16 ''functions'', JObject []), (u16 ''interfaces'', JObject []),
                       (u16 ''types'', JObject [])])])]"

definition fraction_version_document :: js_value where
  "fraction_version_document =
     JObject
       [(u16 ''metadata'',
           JObject [(u16 ''version'', JNumber (OtherNumber (u16 ''1.5''))),
                    (u16 ''createdAt'', JString (u16 ''2025-02-23T12:00:00.000Z'')),
                    (u16 ''tsConfigPath'', JString (u16 ''/''))]),
        (u16 ''snapshot'',
           JObject [(u16 ''symbols'',
              JObject [(u16 ''functions'', JObject []), (u16 ''interfaces'', JObject []),
                       (u16 ''types'', JObject [])])])]"

section \<open>Properties of the numbers\<close>

text \<open>The decimal representation of an integer denotes that integer, so that
  \<open>OtherNumber t\<close> stands for a number exactly when no safe integer is printed as
  \<open>t\<close>.\<close>

lemma digit_unat: "n < 10 \<Longrightarrow> unat (0x30 + of_nat n :: code_unit) = 48 + n"
  by (simp add: unat_word_ariths unat_of_nat)

lemma digitsValue_snoc: "digitsValue (s @ [c]) = 10 * digitsValue s + (unat c - 48)"
  by (simp add: digitsValue_def)

lemma digitsValue_digits: "digitsValue (digits n) = n"
proof (induction n rule: digits.induct)
  case (1 n)
  show ?case
  proof (cases "n < 10")
    case True
    then show ?thesis
      by (simp add: digits.simps [of n] digitsValue_def digit_unat)
  next
    case False
    have "n mod 10 < 10" by simp
    then have "unat (0x30 + of_nat (n mod 10) :: code_unit) = 48 + n mod 10"
      by (rule digit_unat)
    with False 1 show ?thesis
      by (simp add: digits.simps [of n] digitsValue_snoc)
  qed
qed

lemma digits_nonempty: "digits n \<noteq> []"
  by (subst digits.simps) simp

lemma hd_digits: "hd (digits n) \<noteq> 0x2D"
proof (induction n rule: digits.induct)
  case (1 n)
  show ?case
  proof (cases "n < 10")
    case True
    then have u: "unat (0x30 + of_nat n :: code_unit) = 48 + n" by (rule digit_unat)
    have "(0x30 + of_nat n :: code_unit) \<noteq> 0x2D"
    proof
      assume "(0x30 + of_nat n :: code_unit) = 0x2D"
      then have "unat (0x30 + of_nat n :: code_unit) = unat (0x2D :: code_unit)"
        by (rule arg_cong)
      with u show False by simp
    qed
    with True show ?thesis by (simp add: digits.simps [of n])
  next
    case False
    with 1 show ?thesis
      by (simp add: digits.simps [of n] digits_nonempty)
  qed
qed

lemma decimalValue_toString: "decimalValue (Number_toString (SafeInteger i)) = i"
proof (cases "i < 0")
  case True
  then show ?thesis
    by (simp add: Number_toString.simps decimalValue_def digitsValue_digits)
next
  case False
  obtain c cs where d: "digits (nat i) = c # cs"
    using digits_nonempty [of "nat i"] by (cases "digits (nat i)") auto
  with hd_digits [of "nat i"] have "c \<noteq> 0x2D" by simp
  with False d show ?thesis
    using digitsValue_digits [of "nat i"]
    by (simp add: Number_toString.simps decimalValue_def)
qed

lemma validNumber_other_iff:
  "validNumber (OtherNumber t) \<longleftrightarrow>
     (\<forall>i. \<bar>i\<bar> \<le> 2 ^ 53 - 1 \<longrightarrow> Number_toString (SafeInteger i) \<noteq> t)"
  using decimalValue_toString by auto

section \<open>Properties of the comparator and of the aggregator\<close>

subsection \<open>Maps and sets\<close>

lemma map_of_foldl_Map_set:
  "map_of (foldl (\<lambda>m (k, v). Map_set m k v) m es) = map_of m ++ map_of (rev es)"
proof (induction es arbitrary: m)
  case Nil
  show ?case by simp
next
  case (Cons e es)
  obtain k v where e: "e = (k, v)" by (cases e)
  have "map_of (Map_set m k v) = (map_of m)(k \<mapsto> v)"
    by (simp add: Map_set_def update_conv')
  then show ?case
    using Cons.IH [of "Map_set m k v"] by (simp add: e map_add_upd_left fun_eq_iff map_add_def split: option.splits)
qed

lemma map_of_new_Map: "map_of (new_Map es) = map_of (rev es)"
  by (simp add: new_Map_def map_of_foldl_Map_set)

lemma distinct_foldl_Map_set:
  "distinct (map fst m) \<Longrightarrow> distinct (map fst (foldl (\<lambda>m (k, v). Map_set m k v) m es))"
proof (induction es arbitrary: m)
  case Nil
  then show ?case by simp
next
  case (Cons e es)
  obtain k v where e: "e = (k, v)" by (cases e)
  from Cons.prems have "distinct (map fst (Map_set m k v))"
    by (simp add: Map_set_def distinct_update)
  from Cons.IH [OF this] show ?case by (simp add: e)
qed

lemma distinct_new_Map: "distinct (map fst (new_Map es))"
  by (simp add: new_Map_def distinct_foldl_Map_set)

lemma new_Map_entry_iff: "(k, v) \<in> set (new_Map es) \<longleftrightarrow> map_of (rev es) k = Some v"
  using distinct_new_Map [of es] map_of_new_Map [of es]
  by (metis map_of_eq_Some_iff)

lemma set_foldl_new_Set:
  "set (foldl (\<lambda>s x. if x \<in> set s then s else s @ [x]) s xs) = set s \<union> set xs"
  by (induction xs arbitrary: s) auto

lemma set_new_Set: "set (new_Set xs) = set xs"
  by (simp add: new_Set_def set_foldl_new_Set)

subsection \<open>Parameter maps\<close>

lemma paramMap_get:
  "Map_get (paramMap f) n = map_of (rev (map (\<lambda>p. (p_name p, p)) (parameters f))) n"
  by (simp add: Map_get_def paramMap_def map_of_new_Map)

lemma paramMap_entry_iff:
  "(n, p) \<in> set (paramMap f) \<longleftrightarrow> Map_get (paramMap f) n = Some p"
  by (simp add: paramMap_get) (simp add: paramMap_def new_Map_entry_iff)

lemma paramMap_get_name: "Map_get (paramMap f) n = Some p \<Longrightarrow> p_name p = n"
  by (auto simp: paramMap_get dest!: map_of_SomeD)




subsection \<open>The two loops of the comparator\<close>

lemma afterLoop_eq:
  "afterLoop bp ap chs = chs @ concat (map (afterChange bp) ap)"
  by (induction bp ap chs rule: afterLoop.induct)
     (auto simp: afterChange_def split: option.splits)

lemma beforeLoop_eq:
  "beforeLoop ap bp chs = chs @ concat (map (beforeChange ap) bp)"
  by (induction ap bp chs rule: beforeLoop.induct) (auto simp: beforeChange_def)

lemma compareSignatures_eq:
  "compareSignatures before after =
     concat (map (afterChange (paramMap before)) (paramMap after)) @
     concat (map (beforeChange (paramMap after)) (paramMap before)) @
     returnChange before after"
  by (simp add: compareSignatures_def Let_def afterLoop_eq beforeLoop_eq returnChange_def)


subsection \<open>No drift\<close>

lemma concat_map_Nil_iff: "concat (map f xs) = [] \<longleftrightarrow> (\<forall>x\<in>set xs. f x = [])"
  by (induction xs) auto

lemma ball_pairs: "(\<forall>x\<in>set m. P x) \<longleftrightarrow> (\<forall>n p. (n, p) \<in> set m \<longrightarrow> P (n, p))"
  by auto

lemma after_part_Nil_iff:
  "concat (map (afterChange (paramMap b)) (paramMap a)) = [] \<longleftrightarrow>
     (\<forall>n p. Map_get (paramMap a) n = Some p \<longrightarrow>
        (\<exists>q. Map_get (paramMap b) n = Some q \<and> paramsEqual q p))"
proof -
  have "afterChange (paramMap b) (n, p) = [] \<longleftrightarrow>
        (\<exists>q. Map_get (paramMap b) n = Some q \<and> paramsEqual q p)" for n p
    by (cases "Map_get (paramMap b) n") (simp_all add: afterChange_def)
  then show ?thesis
    unfolding concat_map_Nil_iff ball_pairs [of "paramMap a"] paramMap_entry_iff by simp
qed

lemma before_part_Nil_iff:
  "concat (map (beforeChange (paramMap a)) (paramMap b)) = [] \<longleftrightarrow>
     (\<forall>n q. Map_get (paramMap b) n = Some q \<longrightarrow> Map_get (paramMap a) n \<noteq> None)"
proof -
  have "beforeChange (paramMap a) (n, q) = [] \<longleftrightarrow> Map_get (paramMap a) n \<noteq> None" for n q
    by (simp add: beforeChange_def Map_has_def Map_get_def)
  then show ?thesis
    unfolding concat_map_Nil_iff ball_pairs [of "paramMap b"] paramMap_entry_iff by simp
qed

lemma compareSignatures_Nil_iff: "compareSignatures b a = [] \<longleftrightarrow> noDrift b a"
proof -
  have "(\<forall>n. rel_option paramsEqual (Map_get (paramMap b) n) (Map_get (paramMap a) n)) \<longleftrightarrow>
        (\<forall>n p. Map_get (paramMap a) n = Some p \<longrightarrow>
           (\<exists>q. Map_get (paramMap b) n = Some q \<and> paramsEqual q p)) \<and>
        (\<forall>n q. Map_get (paramMap b) n = Some q \<longrightarrow> Map_get (paramMap a) n \<noteq> None)"
    (is "?L \<longleftrightarrow> ?R")
  proof
    assume l: ?L
    show ?R
    proof (intro conjI allI impI)
      fix n p assume "Map_get (paramMap a) n = Some p"
      with l [rule_format, of n] show "\<exists>q. Map_get (paramMap b) n = Some q \<and> paramsEqual q p"
        by (cases "Map_get (paramMap b) n") auto
    next
      fix n q assume "Map_get (paramMap b) n = Some q"
      with l [rule_format, of n] show "Map_get (paramMap a) n \<noteq> None"
        by (cases "Map_get (paramMap a) n") auto
    qed
  next
    assume r: ?R
    show ?L
    proof
      fix n
      show "rel_option paramsEqual (Map_get (paramMap b) n) (Map_get (paramMap a) n)"
      proof (cases "Map_get (paramMap a) n")
        case None
        with r have "Map_get (paramMap b) n = None"
          by (cases "Map_get (paramMap b) n") auto
        with None show ?thesis by simp
      next
        case (Some p)
        with r obtain q where "Map_get (paramMap b) n = Some q" "paramsEqual q p" by blast
        with Some show ?thesis by simp
      qed
    qed
  qed
  moreover have "returnChange b a = [] \<longleftrightarrow>
      normalizeForComparison (returnType b) = normalizeForComparison (returnType a)"
    by (simp add: returnChange_def)
  ultimately show ?thesis
    unfolding compareSignatures_eq append_is_Nil_conv after_part_Nil_iff before_part_Nil_iff
      noDrift_def
    by blast
qed

lemma paramsEqual_refl: "paramsEqual p p"
  by (simp add: paramsEqual_def)

lemma noDrift_same_map:
  assumes "\<And>n. Map_get (paramMap b) n = Map_get (paramMap a) n"
    and "normalizeForComparison (returnType b) = normalizeForComparison (returnType a)"
  shows "noDrift b a"
  using assms by (simp add: noDrift_def option.rel_refl paramsEqual_refl)

lemma compareSignatures_same: "compareSignatures f f = []"
  by (simp add: compareSignatures_Nil_iff noDrift_same_map)


subsection \<open>The loops of the aggregator\<close>

lemma afterKeysLoop_eq:
  "afterKeysLoop b a bk ks acc =
     (fst acc @ filter (\<lambda>k. \<not> Set_has bk k) ks, snd acc @ concat (map (driftAt b a bk) ks))"
proof (induction ks arbitrary: acc)
  case Nil
  show ?case by simp
next
  case (Cons k ks)
  obtain ad md where acc: "acc = (ad, md)" by (cases acc)
  show ?case
    unfolding acc
    by (simp add: Cons.IH driftAt_def Let_def split: option.splits)
qed

lemma beforeKeysLoop_eq:
  "beforeKeysLoop ak ks removed = removed @ filter (\<lambda>k. \<not> Set_has ak k) ks"
  by (induction ak ks removed rule: beforeKeysLoop.induct) auto

lemma compareSnapshots_eq:
  "compareSnapshots b a =
     \<lparr>modifiedFunctions = modifiedDrifts b a,
      addedFunctions = sort (addedKeys b a),
      removedFunctions = sort (removedKeys b a),
      hasBreakingChanges =
        computeHasBreakingChanges (modifiedDrifts b a) (sort (removedKeys b a)),
      suggestedVersion =
        computeSuggestedVersion (modifiedDrifts b a) (sort (addedKeys b a))
          (sort (removedKeys b a))\<rparr>"
  by (simp add: compareSnapshots_def Let_def afterKeysLoop_eq beforeKeysLoop_eq addedKeys_def
      removedKeys_def modifiedDrifts_def)

lemma set_addedKeys:
  "set (addedKeys b a) = fst ` set (r_functions (symbols a)) - fst ` set (r_functions (symbols b))"
  by (auto simp: addedKeys_def Set_has_def set_new_Set)

lemma set_removedKeys:
  "set (removedKeys b a) = fst ` set (r_functions (symbols b)) - fst ` set (r_functions (symbols a))"
  by (auto simp: removedKeys_def Set_has_def set_new_Set)

lemma sort_Nil_iff: "sort xs = [] \<longleftrightarrow> xs = []"
  by (metis length_0_conv length_sort)

lemma computeHasBreakingChanges_eq:
  "computeHasBreakingChanges md rm \<longleftrightarrow> rm \<noteq> [] \<or> anyBreaking md"
  by (simp add: computeHasBreakingChanges_def anyBreaking_def)

lemma computeSuggestedVersion_eq:
  "computeSuggestedVersion md ad rm =
     (if rm \<noteq> [] then Major else if anyBreaking md then Major
      else if ad \<noteq> [] \<or> md \<noteq> [] then Minor else Patch)"
  by (simp add: computeSuggestedVersion_def anyBreaking_def)

lemma anyBreaking_iff:
  "anyBreaking md \<longleftrightarrow> (\<exists>fn\<in>set md. \<exists>c\<in>set (changes fn). breaking c)"
  by (simp add: anyBreaking_def list_ex_iff)

lemma set_modifiedDrifts:
  "set (modifiedDrifts b a) =
     {\<lparr>d_name = fn_name af, filePathBefore = filePath bf, filePathAfter = filePath af,
        changes = compareSignatures bf af\<rparr> | k bf af.
        k \<in> fst ` set (r_functions (symbols a)) \<and>
        map_of (r_functions (symbols b)) k = Some bf \<and>
        map_of (r_functions (symbols a)) k = Some af \<and>
        compareSignatures bf af \<noteq> []}"
proof -
  have bk: "Set_has (new_Set (map fst (r_functions (symbols b)))) k"
    if "map_of (r_functions (symbols b)) k = Some bf" for k bf
    using that by (auto simp: Set_has_def set_new_Set dest: map_of_SomeD intro: rev_image_eqI)
  show ?thesis
    unfolding modifiedDrifts_def
    by (auto simp: set_new_Set driftAt_def bk split: option.splits if_splits)
      (metis fst_conv image_eqI)
qed


lemmas example_defs = param_def func_def snapshotOf_def u16_def
  greet_before_def greet_optional_def greet_required_def

lemmas comparator_defs = compareSignatures_def paramMap_def new_Map_def Map_set_def Map_get_def
  Map_has_def paramsEqual_def normalizeForComparison_def trim_def isWhiteSpace_def

subsection \<open>Roll-up of the report\<close>

lemma distinct_foldl_new_Set:
  "distinct acc \<Longrightarrow> distinct (foldl (\<lambda>s x. if x \<in> set s then s else s @ [x]) acc xs)"
  by (induction xs arbitrary: acc) auto

lemma distinct_new_Set: "distinct (new_Set xs)"
  by (simp add: new_Set_def distinct_foldl_new_Set)

lemma sort_distinct_eq: "distinct xs \<Longrightarrow> sort xs = sorted_list_of_set (set xs)"
  by (simp add: sorted_list_of_set_sort_remdups distinct_remdups_id)

lemma sorted_addedKeys:
  "sort (addedKeys b a) =
     sorted_list_of_set (fst ` set (r_functions (symbols a)) - fst ` set (r_functions (symbols b)))"
proof -
  have "distinct (addedKeys b a)"
    by (simp add: addedKeys_def distinct_new_Set)
  then show ?thesis
    by (simp add: sort_distinct_eq set_addedKeys)
qed

lemma sorted_removedKeys:
  "sort (removedKeys b a) =
     sorted_list_of_set (fst ` set (r_functions (symbols b)) - fst ` set (r_functions (symbols a)))"
proof -
  have "distinct (removedKeys b a)"
    by (simp add: removedKeys_def distinct_new_Set)
  then show ?thesis
    by (simp add: sort_distinct_eq set_removedKeys)
qed

lemma set_modifiedDrifts_map:
  "set (modifiedDrifts b a) =
     {\<lparr>d_name = fn_name af, filePathBefore = filePath bf, filePathAfter = filePath af,
        changes = compareSignatures bf af\<rparr> | k bf af.
        map_of (r_functions (symbols b)) k = Some bf \<and>
        map_of (r_functions (symbols a)) k = Some af \<and>
        compareSignatures bf af \<noteq> []}"
proof -
  have "k \<in> fst ` set (r_functions (symbols a))"
    if "map_of (r_functions (symbols a)) k = Some af" for k af
    using that by (metis domI dom_map_of_conv_image_fst)
  then show ?thesis
    unfolding set_modifiedDrifts by blast
qed

lemma modifiedDrifts_Nil_iff:
  "modifiedDrifts b a \<noteq> [] \<longleftrightarrow>
     (\<exists>k bf af. map_of (r_functions (symbols b)) k = Some bf \<and>
        map_of (r_functions (symbols a)) k = Some af \<and> compareSignatures bf af \<noteq> [])"
proof -
  have "modifiedDrifts b a \<noteq> [] \<longleftrightarrow> set (modifiedDrifts b a) \<noteq> {}"
    by simp
  also have "\<dots> \<longleftrightarrow> (\<exists>k bf af. map_of (r_functions (symbols b)) k = Some bf \<and>
        map_of (r_functions (symbols a)) k = Some af \<and> compareSignatures bf af \<noteq> [])"
    unfolding set_modifiedDrifts_map by blast
  finally show ?thesis .
qed

lemma anyBreaking_modifiedDrifts:
  "anyBreaking (modifiedDrifts b a) \<longleftrightarrow>
     (\<exists>k bf af. map_of (r_functions (symbols b)) k = Some bf \<and>
        map_of (r_functions (symbols a)) k = Some af \<and>
        (\<exists>c\<in>set (compareSignatures bf af). breaking c))"
  (is "?l \<longleftrightarrow> ?r")
proof
  assume ?l
  then obtain fn c where fn: "fn \<in> set (modifiedDrifts b a)" and c: "c \<in> set (changes fn)" "breaking c"
    by (auto simp: anyBreaking_iff)
  from fn obtain k bf af where
    "map_of (r_functions (symbols b)) k = Some bf" "map_of (r_functions (symbols a)) k = Some af"
    "changes fn = compareSignatures bf af"
    unfolding set_modifiedDrifts_map by auto
  with c show ?r by auto
next
  assume ?r
  then obtain k bf af c where
    k: "map_of (r_functions (symbols b)) k = Some bf" "map_of (r_functions (symbols a)) k = Some af"
    and c: "c \<in> set (compareSignatures bf af)" "breaking c"
    by blast
  from c have ne: "compareSignatures bf af \<noteq> []" by auto
  let ?fn = "\<lparr>d_name = fn_name af, filePathBefore = filePath bf, filePathAfter = filePath af,
        changes = compareSignatures bf af\<rparr>"
  from k ne have "?fn \<in> set (modifiedDrifts b a)"
    unfolding set_modifiedDrifts_map by blast
  moreover have "\<exists>c\<in>set (changes ?fn). breaking c"
    using c by auto
  ultimately show ?l
    unfolding anyBreaking_iff by blast
qed

lemma sort_keys_Nil_iff:
  "sort (removedKeys b a) \<noteq> [] \<longleftrightarrow>
     (\<exists>k. k \<in> fst ` set (r_functions (symbols b)) \<and> k \<notin> fst ` set (r_functions (symbols a)))"
  "sort (addedKeys b a) \<noteq> [] \<longleftrightarrow>
     (\<exists>k. k \<in> fst ` set (r_functions (symbols a)) \<and> k \<notin> fst ` set (r_functions (symbols b)))"
proof -
  have "removedKeys b a \<noteq> [] \<longleftrightarrow> set (removedKeys b a) \<noteq> {}" by simp
  then show "sort (removedKeys b a) \<noteq> [] \<longleftrightarrow>
     (\<exists>k. k \<in> fst ` set (r_functions (symbols b)) \<and> k \<notin> fst ` set (r_functions (symbols a)))"
    unfolding sort_Nil_iff set_removedKeys by blast
  have "addedKeys b a \<noteq> [] \<longleftrightarrow> set (addedKeys b a) \<noteq> {}" by simp
  then show "sort (addedKeys b a) \<noteq> [] \<longleftrightarrow>
     (\<exists>k. k \<in> fst ` set (r_functions (symbols a)) \<and> k \<notin> fst ` set (r_functions (symbols b)))"
    unfolding sort_Nil_iff set_addedKeys by blast
qed

lemma greet_optional_changes:
  "compareSignatures greet_before greet_optional =
     [ParameterAdded (param ''greeting'' ''string'' True) False]"
  by (simp add: comparator_defs example_defs dropWhile_append)

lemma greet_required_changes:
  "compareSignatures greet_before greet_required =
     [ParameterAdded (param ''greeting'' ''string'' False) True]"
  by (simp add: comparator_defs example_defs)

text \<open>
  Claim C1. For every pair of snapshots, the report of \<open>compareSnapshots\<close> lists as
  removed the function keys of \<open>before\<close> that \<open>after\<close> lacks and as added the keys of
  \<open>after\<close> that \<open>before\<close> lacks, both sorted, and as modified the functions under a
  key of both whose signatures differ for \<open>compareSignatures\<close>.
  \<open>hasBreakingChanges\<close> is true exactly when \<open>removedFunctions\<close> is not empty or some
  change of some modified function is breaking, that is, when \<open>before\<close> has a key that
  \<open>after\<close> lacks or some key of both has a breaking change between its two
  signatures. \<open>suggestedVersion\<close> follows the ordered policy: a removed key gives
  major; otherwise a breaking change under a key of both gives major; otherwise an
  added key or a change under a key of both gives minor; otherwise the bump is patch.
  A function key of \<open>before\<close> that \<open>after\<close> lacks makes the report breaking with a
  major bump, whatever else changed.
\<close>

theorem report_rollup:
  "let r = compareSnapshots before after;
       beforeFns = r_functions (symbols before);
       afterFns = r_functions (symbols after);
       removed = (\<exists>k. k \<in> fst ` set beforeFns \<and> k \<notin> fst ` set afterFns);
       added = (\<exists>k. k \<in> fst ` set afterFns \<and> k \<notin> fst ` set beforeFns);
       modified =
         (\<exists>k bf af. map_of beforeFns k = Some bf \<and> map_of afterFns k = Some af \<and>
            compareSignatures bf af \<noteq> []);
       breakingModified =
         (\<exists>k bf af. map_of beforeFns k = Some bf \<and> map_of afterFns k = Some af \<and>
            (\<exists>c\<in>set (compareSignatures bf af). breaking c));
       breakingModification =
         (\<exists>fn\<in>set (modifiedFunctions r). \<exists>c\<in>set (changes fn). breaking c)
   in removedFunctions r = sorted_list_of_set (fst ` set beforeFns - fst ` set afterFns) \<and>
      addedFunctions r = sorted_list_of_set (fst ` set afterFns - fst ` set beforeFns) \<and>
      set (modifiedFunctions r) =
        {\<lparr>d_name = fn_name af, filePathBefore = filePath bf, filePathAfter = filePath af,
           changes = compareSignatures bf af\<rparr> | k bf af.
           map_of beforeFns k = Some bf \<and> map_of afterFns k = Some af \<and>
           compareSignatures bf af \<noteq> []} \<and>
      (hasBreakingChanges r \<longleftrightarrow> removedFunctions r \<noteq> [] \<or> breakingModification) \<and>
      suggestedVersion r =
        (if removedFunctions r \<noteq> [] then Major
         else if breakingModification then Major
         else if addedFunctions r \<noteq> [] \<or> modifiedFunctions r \<noteq> [] then Minor
         else Patch) \<and>
      (hasBreakingChanges r \<longleftrightarrow> removed \<or> breakingModified) \<and>
      suggestedVersion r =
        (if removed then Major
         else if breakingModified then Major
         else if added \<or> modified then Minor
         else Patch) \<and>
      (removed \<longrightarrow> hasBreakingChanges r \<and> suggestedVersion r = Major)"
proof -
  define md where "md = modifiedDrifts before after"
  define ad where "ad = sort (addedKeys before after)"
  define rm where "rm = sort (removedKeys before after)"
  define bm where "bm \<longleftrightarrow> (\<exists>fn\<in>set md. \<exists>c\<in>set (changes fn). breaking c)"
  define bfs where "bfs = r_functions (symbols before)"
  define afs where "afs = r_functions (symbols after)"
  define removed where "removed \<longleftrightarrow> (\<exists>k. k \<in> fst ` set bfs \<and> k \<notin> fst ` set afs)"
  define added where "added \<longleftrightarrow> (\<exists>k. k \<in> fst ` set afs \<and> k \<notin> fst ` set bfs)"
  define modified where "modified \<longleftrightarrow>
    (\<exists>k bf af. map_of bfs k = Some bf \<and> map_of afs k = Some af \<and> compareSignatures bf af \<noteq> [])"
  define breakingModified where "breakingModified \<longleftrightarrow>
    (\<exists>k bf af. map_of bfs k = Some bf \<and> map_of afs k = Some af \<and>
       (\<exists>c\<in>set (compareSignatures bf af). breaking c))"
  have r: "compareSnapshots before after =
      \<lparr>modifiedFunctions = md, addedFunctions = ad, removedFunctions = rm,
       hasBreakingChanges = computeHasBreakingChanges md rm,
       suggestedVersion = computeSuggestedVersion md ad rm\<rparr>"
    by (simp add: compareSnapshots_eq md_def ad_def rm_def)
  have h: "computeHasBreakingChanges md rm \<longleftrightarrow> rm \<noteq> [] \<or> bm"
    by (simp add: computeHasBreakingChanges_eq anyBreaking_iff bm_def)
  have v: "computeSuggestedVersion md ad rm =
      (if rm \<noteq> [] then Major else if bm then Major
       else if ad \<noteq> [] \<or> md \<noteq> [] then Minor else Patch)"
    by (simp add: computeSuggestedVersion_eq anyBreaking_iff bm_def)
  have rm: "rm = sorted_list_of_set (fst ` set bfs - fst ` set afs)"
    by (simp add: rm_def bfs_def afs_def sorted_removedKeys)
  have ad: "ad = sorted_list_of_set (fst ` set afs - fst ` set bfs)"
    by (simp add: ad_def bfs_def afs_def sorted_addedKeys)
  have md: "set md =
      {\<lparr>d_name = fn_name af, filePathBefore = filePath bf, filePathAfter = filePath af,
         changes = compareSignatures bf af\<rparr> | k bf af.
         map_of bfs k = Some bf \<and> map_of afs k = Some af \<and> compareSignatures bf af \<noteq> []}"
    unfolding md_def bfs_def afs_def by (rule set_modifiedDrifts_map)
  have rm_iff: "rm \<noteq> [] \<longleftrightarrow> removed"
    unfolding rm_def removed_def bfs_def afs_def by (rule sort_keys_Nil_iff)
  have ad_iff: "ad \<noteq> [] \<longleftrightarrow> added"
    unfolding ad_def added_def bfs_def afs_def by (rule sort_keys_Nil_iff)
  have md_iff: "md \<noteq> [] \<longleftrightarrow> modified"
    unfolding md_def modified_def bfs_def afs_def by (rule modifiedDrifts_Nil_iff)
  have bm_iff: "bm \<longleftrightarrow> breakingModified"
    unfolding bm_def breakingModified_def bfs_def afs_def md_def
    using anyBreaking_modifiedDrifts [of before after] by (simp add: anyBreaking_iff)
  have h2: "computeHasBreakingChanges md rm \<longleftrightarrow> removed \<or> breakingModified"
    using h rm_iff bm_iff by simp
  have v2: "computeSuggestedVersion md ad rm =
      (if removed then Major else if breakingModified then Major
       else if added \<or> modified then Minor else Patch)"
    using v rm_iff ad_iff md_iff bm_iff by simp
  have k: "removed \<longrightarrow> computeHasBreakingChanges md rm \<and> computeSuggestedVersion md ad rm = Major"
    using h2 v2 by simp
  have sel: "modifiedFunctions (compareSnapshots before after) = md"
    "addedFunctions (compareSnapshots before after) = ad"
    "removedFunctions (compareSnapshots before after) = rm"
    "hasBreakingChanges (compareSnapshots before after) = computeHasBreakingChanges md rm"
    "suggestedVersion (compareSnapshots before after) = computeSuggestedVersion md ad rm"
    by (simp_all add: r)
  have main: "rm = sorted_list_of_set (fst ` set bfs - fst ` set afs) \<and>
      ad = sorted_list_of_set (fst ` set afs - fst ` set bfs) \<and>
      set md =
        {\<lparr>d_name = fn_name af, filePathBefore = filePath bf, filePathAfter = filePath af,
           changes = compareSignatures bf af\<rparr> | k bf af.
           map_of bfs k = Some bf \<and> map_of afs k = Some af \<and> compareSignatures bf af \<noteq> []} \<and>
      (computeHasBreakingChanges md rm \<longleftrightarrow> rm \<noteq> [] \<or> bm) \<and>
      computeSuggestedVersion md ad rm =
        (if rm \<noteq> [] then Major else if bm then Major
         else if ad \<noteq> [] \<or> md \<noteq> [] then Minor else Patch) \<and>
      (computeHasBreakingChanges md rm \<longleftrightarrow> removed \<or> breakingModified) \<and>
      computeSuggestedVersion md ad rm =
        (if removed then Major else if breakingModified then Major
         else if added \<or> modified then Minor else Patch) \<and>
      (removed \<longrightarrow> computeHasBreakingChanges md rm \<and> computeSuggestedVersion md ad rm = Major)"
    using rm ad md h v h2 v2 k by (intro conjI)
  show ?thesis
    unfolding Let_def sel
    using main
    unfolding bm_def removed_def added_def modified_def breakingModified_def bfs_def afs_def .
qed

theorem report_rollup_witness:
  "(\<exists>k. k \<in> fst ` set (r_functions (symbols (snapshotOf
            [(''fn:/repo/api.ts::f'', func ''f'' [param ''x'' ''number'' False] ''void'')]))) \<and>
        k \<notin> fst ` set (r_functions (symbols (snapshotOf [])))) \<and>
   removedFunctions (compareSnapshots
     (snapshotOf [(''fn:/repo/api.ts::f'', func ''f'' [param ''x'' ''number'' False] ''void'')])
     (snapshotOf [])) = [u16 ''fn:/repo/api.ts::f''] \<and>
   hasBreakingChanges (compareSnapshots
     (snapshotOf [(''fn:/repo/api.ts::f'', func ''f'' [param ''x'' ''number'' False] ''void'')])
     (snapshotOf [])) \<and>
   suggestedVersion (compareSnapshots
     (snapshotOf [(''fn:/repo/api.ts::f'', func ''f'' [param ''x'' ''number'' False] ''void'')])
     (snapshotOf [])) = Major \<and>
   \<not> hasBreakingChanges (compareSnapshots
     (snapshotOf [(''fn:/repo/api.ts::greet'', greet_before)])
     (snapshotOf [(''fn:/repo/api.ts::greet'', greet_optional)])) \<and>
   suggestedVersion (compareSnapshots
     (snapshotOf [(''fn:/repo/api.ts::greet'', greet_before)])
     (snapshotOf [(''fn:/repo/api.ts::greet'', greet_optional)])) = Minor \<and>
   hasBreakingChanges (compareSnapshots
     (snapshotOf [(''fn:/repo/api.ts::greet'', greet_before)])
     (snapshotOf [(''fn:/repo/api.ts::greet'', greet_required)])) \<and>
   suggestedVersion (compareSnapshots
     (snapshotOf [(''fn:/repo/api.ts::greet'', greet_before)])
     (snapshotOf [(''fn:/repo/api.ts::greet'', greet_required)])) = Major \<and>
   addedFunctions (compareSnapshots (snapshotOf [])
     (snapshotOf [(''fn:/repo/api.ts::greet'', greet_before)])) = [u16 ''fn:/repo/api.ts::greet''] \<and>
   \<not> hasBreakingChanges (compareSnapshots (snapshotOf [])
     (snapshotOf [(''fn:/repo/api.ts::greet'', greet_before)])) \<and>
   suggestedVersion (compareSnapshots (snapshotOf [])
     (snapshotOf [(''fn:/repo/api.ts::greet'', greet_before)])) = Minor"
proof -
  let ?f = "snapshotOf [(''fn:/repo/api.ts::f'', func ''f'' [param ''x'' ''number'' False] ''void'')]"
  let ?b = "snapshotOf [(''fn:/repo/api.ts::greet'', greet_before)]"
  let ?o = "snapshotOf [(''fn:/repo/api.ts::greet'', greet_optional)]"
  let ?r = "snapshotOf [(''fn:/repo/api.ts::greet'', greet_required)]"
  let ?e = "snapshotOf []"
  have fns: "r_functions (symbols ?f) =
      [(u16 ''fn:/repo/api.ts::f'', func ''f'' [param ''x'' ''number'' False] ''void'')]"
    "r_functions (symbols ?b) = [(u16 ''fn:/repo/api.ts::greet'', greet_before)]"
    "r_functions (symbols ?o) = [(u16 ''fn:/repo/api.ts::greet'', greet_optional)]"
    "r_functions (symbols ?r) = [(u16 ''fn:/repo/api.ts::greet'', greet_required)]"
    "r_functions (symbols ?e) = []"
    by (simp_all add: snapshotOf_def)
  have c: "\<exists>k. k \<in> fst ` set (r_functions (symbols ?f)) \<and> k \<notin> fst ` set (r_functions (symbols ?e))"
    by (simp add: fns)
  from report_rollup [of ?f ?e] c
  have 1: "removedFunctions (compareSnapshots ?f ?e) = [u16 ''fn:/repo/api.ts::f'']"
    "hasBreakingChanges (compareSnapshots ?f ?e)"
    "suggestedVersion (compareSnapshots ?f ?e) = Major"
    unfolding Let_def fns by simp_all
  let ?k = "u16 ''fn:/repo/api.ts::greet''"
  note ro = report_rollup [of ?b ?o, unfolded Let_def fns]
  have o1: "\<not> (\<exists>k. k \<in> fst ` set [(?k, greet_before)] \<and> k \<notin> fst ` set [(?k, greet_optional)])"
    by simp
  have o2: "\<not> (\<exists>k bf af. map_of [(?k, greet_before)] k = Some bf \<and>
      map_of [(?k, greet_optional)] k = Some af \<and> (\<exists>c\<in>set (compareSignatures bf af). breaking c))"
    by (auto simp: greet_optional_changes split: if_splits)
  have o3: "\<exists>k bf af. map_of [(?k, greet_before)] k = Some bf \<and>
      map_of [(?k, greet_optional)] k = Some af \<and> compareSignatures bf af \<noteq> []"
    by (intro exI [of _ ?k] exI [of _ greet_before] exI [of _ greet_optional])
      (simp add: greet_optional_changes)
  from o1 o2 o3 ro [THEN conjunct2, THEN conjunct2, THEN conjunct2, THEN conjunct2, THEN conjunct2, THEN conjunct1] ro [THEN conjunct2, THEN conjunct2, THEN conjunct2, THEN conjunct2, THEN conjunct2, THEN conjunct2, THEN conjunct1]
  have 2: "\<not> hasBreakingChanges (compareSnapshots ?b ?o)"
    "suggestedVersion (compareSnapshots ?b ?o) = Minor"
    by (simp_all only: if_False if_True simp_thms)
  note rr = report_rollup [of ?b ?r, unfolded Let_def fns]
  have r1: "\<not> (\<exists>k. k \<in> fst ` set [(?k, greet_before)] \<and> k \<notin> fst ` set [(?k, greet_required)])"
    by simp
  have r2: "\<exists>k bf af. map_of [(?k, greet_before)] k = Some bf \<and>
      map_of [(?k, greet_required)] k = Some af \<and> (\<exists>c\<in>set (compareSignatures bf af). breaking c)"
    by (intro exI [of _ ?k] exI [of _ greet_before] exI [of _ greet_required])
      (simp add: greet_required_changes)
  from r1 r2 rr [THEN conjunct2, THEN conjunct2, THEN conjunct2, THEN conjunct2, THEN conjunct2, THEN conjunct1] rr [THEN conjunct2, THEN conjunct2, THEN conjunct2, THEN conjunct2, THEN conjunct2, THEN conjunct2, THEN conjunct1]
  have 3: "hasBreakingChanges (compareSnapshots ?b ?r)"
    "suggestedVersion (compareSnapshots ?b ?r) = Major"
    by (simp_all only: if_False if_True simp_thms)
  note ra = report_rollup [of ?e ?b, unfolded Let_def fns]
  have a1: "\<not> (\<exists>k. k \<in> fst ` set ([] :: (js_string \<times> FunctionSignature) list) \<and> k \<notin> fst ` set [(?k, greet_before)])"
    by simp
  have a2: "\<not> (\<exists>k bf af. map_of ([] :: (js_string \<times> FunctionSignature) list) k = Some bf \<and>
      map_of [(?k, greet_before)] k = Some af \<and> (\<exists>c\<in>set (compareSignatures bf af). breaking c))"
    by simp
  have a3: "\<exists>k. k \<in> fst ` set [(?k, greet_before)] \<and>
      k \<notin> fst ` set ([] :: (js_string \<times> FunctionSignature) list)"
    by simp
  have a4: "sorted_list_of_set (fst ` set [(?k, greet_before)] -
      fst ` set ([] :: (js_string \<times> FunctionSignature) list)) = [?k]"
    by simp
  from a1 a2 a3 a4 ra [THEN conjunct2, THEN conjunct1] ra [THEN conjunct2, THEN conjunct2, THEN conjunct2, THEN conjunct2, THEN conjunct2, THEN conjunct1] ra [THEN conjunct2, THEN conjunct2, THEN conjunct2, THEN conjunct2, THEN conjunct2, THEN conjunct2, THEN conjunct1]
  have 4: "addedFunctions (compareSnapshots ?e ?b) = [u16 ''fn:/repo/api.ts::greet'']"
    "\<not> hasBreakingChanges (compareSnapshots ?e ?b)"
    "suggestedVersion (compareSnapshots ?e ?b) = Minor"
    by (simp_all only: if_False if_True simp_thms)
  from c 1 2 3 4 show ?thesis by blast
qed

subsection \<open>A snapshot against itself\<close>

lemma modifiedDrifts_same: "modifiedDrifts R R = []"
proof -
  have "set (modifiedDrifts R R) = {}"
    unfolding set_modifiedDrifts by (auto simp: compareSignatures_same)
  then show ?thesis by simp
qed

text \<open>
  Claim C8. Comparing a snapshot with itself gives a report with no added, no removed
  and no modified function, \<open>hasBreakingChanges = false\<close> and
  \<open>suggestedVersion = "patch"\<close>.
\<close>

theorem compareSnapshots_self:
  "compareSnapshots R R =
     \<lparr>modifiedFunctions = [], addedFunctions = [], removedFunctions = [],
      hasBreakingChanges = False, suggestedVersion = Patch\<rparr>"
proof -
  have "set (addedKeys R R) = {}" "set (removedKeys R R) = {}"
    by (simp_all add: set_addedKeys set_removedKeys)
  then have "addedKeys R R = []" "removedKeys R R = []" by simp_all
  then show ?thesis
    by (simp add: compareSnapshots_eq modifiedDrifts_same computeHasBreakingChanges_eq
        computeSuggestedVersion_eq anyBreaking_def)
qed

subsection \<open>Permuted parameter lists\<close>

lemma paramMap_get_perm:
  assumes "mset (parameters a) = mset (parameters b)"
    and "distinct (map p_name (parameters b))"
  shows "Map_get (paramMap a) n = Map_get (paramMap b) n"
proof -
  let ?f = "\<lambda>p. (p_name p, p)"
  have "mset (map p_name (parameters a)) = mset (map p_name (parameters b))"
    using assms(1) by (metis mset_map)
  with assms(2) have da: "distinct (map p_name (parameters a))"
    by (metis mset_eq_imp_distinct_iff)
  have "set (parameters a) = set (parameters b)"
    using assms(1) by (rule mset_eq_setD)
  then have "set (rev (map ?f (parameters a))) = set (rev (map ?f (parameters b)))"
    by simp
  moreover have "distinct (map fst (rev (map ?f (parameters a))))"
    using da by (simp add: rev_map [symmetric] comp_def)
  moreover have "distinct (map fst (rev (map ?f (parameters b))))"
    using assms(2) by (simp add: rev_map [symmetric] comp_def)
  ultimately have "map_of (rev (map ?f (parameters a))) = map_of (rev (map ?f (parameters b)))"
    by (simp add: map_of_inject_set)
  then show ?thesis by (simp add: paramMap_get)
qed

text \<open>
  Claim C10, as stated, fails: with two parameters of the same name the map keeps the
  last one, so swapping them changes the entry of the map. The two signatures below
  have the same multiset of parameters and the same return type, and the comparator
  reports a \<open>parameter-type-changed\<close>.
\<close>

theorem permuted_duplicate_names_counterexample:
  "mset (parameters (func ''f'' [param ''x'' ''number'' False, param ''x'' ''string'' False] ''void'')) =
   mset (parameters (func ''f'' [param ''x'' ''string'' False, param ''x'' ''number'' False] ''void'')) \<and>
   normalizeForComparison (returnType (func ''f'' [param ''x'' ''number'' False, param ''x'' ''string'' False] ''void'')) =
   normalizeForComparison (returnType (func ''f'' [param ''x'' ''string'' False, param ''x'' ''number'' False] ''void'')) \<and>
   compareSignatures
     (func ''f'' [param ''x'' ''string'' False, param ''x'' ''number'' False] ''void'')
     (func ''f'' [param ''x'' ''number'' False, param ''x'' ''string'' False] ''void'') =
   [ParameterTypeChanged (param ''x'' ''number'' False) (param ''x'' ''string'' False)]"
  by (simp add: example_defs comparator_defs)

text \<open>
  Claim C10, amended. For two signatures whose parameter names are pairwise distinct,
  whose parameters are the same multiset of (name, type, optional) triples and whose
  normalized return types are equal, \<open>compareSignatures\<close> returns the empty list:
  reordering the parameters is not reported as drift.
\<close>

theorem permuted_parameters_no_drift:
  assumes "distinct (map p_name (parameters b))"
    and "mset (parameters a) = mset (parameters b)"
    and "normalizeForComparison (returnType b) = normalizeForComparison (returnType a)"
  shows "compareSignatures b a = []"
  unfolding compareSignatures_Nil_iff
  by (rule noDrift_same_map) (simp_all add: paramMap_get_perm [OF assms(2) assms(1)] assms(3))


theorem permuted_parameters_no_drift_witness:
  "distinct (map p_name (parameters (func ''f'' [param ''x'' ''string'' False, param ''y'' ''number'' True] ''void''))) \<and>
   mset (parameters (func ''f'' [param ''y'' ''number'' True, param ''x'' ''string'' False] ''void'')) =
   mset (parameters (func ''f'' [param ''x'' ''string'' False, param ''y'' ''number'' True] ''void'')) \<and>
   compareSignatures
     (func ''f'' [param ''x'' ''string'' False, param ''y'' ''number'' True] ''void'')
     (func ''f'' [param ''y'' ''number'' True, param ''x'' ''string'' False] ''void'') = []"
proof -
  have 1: "distinct (map p_name (parameters (func ''f'' [param ''x'' ''string'' False, param ''y'' ''number'' True] ''void'')))"
    by (simp add: example_defs)
  have 2: "mset (parameters (func ''f'' [param ''y'' ''number'' True, param ''x'' ''string'' False] ''void'')) =
   mset (parameters (func ''f'' [param ''x'' ''string'' False, param ''y'' ''number'' True] ''void''))"
    by (simp add: example_defs)
  have 3: "normalizeForComparison (returnType (func ''f'' [param ''x'' ''string'' False, param ''y'' ''number'' True] ''void'')) =
    normalizeForComparison (returnType (func ''f'' [param ''y'' ''number'' True, param ''x'' ''string'' False] ''void''))"
    by (simp add: example_defs)
  from permuted_parameters_no_drift [OF 1 2 3] 1 2 show ?thesis by blast
qed

subsection \<open>Order of the changes\<close>

lemma subseq_concat_map:
  assumes "\<And>x. x \<in> set xs \<Longrightarrow> map g (f x) = [] \<or> map g (f x) = [h x]"
  shows "subseq (map g (concat (map f xs))) (map h xs)"
  using assms
proof (induction xs)
  case Nil
  show ?case by simp
next
  case (Cons x xs)
  then have ih: "subseq (map g (concat (map f xs))) (map h xs)" by simp
  from Cons.prems [of x] consider "map g (f x) = []" | "map g (f x) = [h x]" by auto
  then show ?case
  proof cases
    case 1
    with ih show ?thesis by (simp add: list_emb_Cons)
  next
    case 2
    with ih show ?thesis by simp
  qed
qed

lemma afterChange_names:
  assumes "e \<in> set (paramMap a)"
  shows "map changeParamName (afterChange bp e) = [] \<or>
         map changeParamName (afterChange bp e) = [Some (fst e)]"
proof -
  obtain n p where e: "e = (n, p)" by (cases e)
  with assms have "p_name p = n" by (simp add: paramMap_entry_iff paramMap_get_name)
  then show ?thesis
    by (simp add: e afterChange_def split: option.splits)
qed

lemma beforeChange_names:
  assumes "e \<in> set (paramMap b)"
  shows "map changeParamName (beforeChange ap e) = [] \<or>
         map changeParamName (beforeChange ap e) = [Some (fst e)]"
proof -
  obtain n p where e: "e = (n, p)" by (cases e)
  with assms have "p_name p = n" by (simp add: paramMap_entry_iff paramMap_get_name)
  then show ?thesis
    by (simp add: e beforeChange_def)
qed

lemma afterChange_phase: "c \<in> set (afterChange bp e) \<Longrightarrow> changePhase c = 0"
  by (auto simp: afterChange_def split: option.splits if_splits)

lemma beforeChange_phase: "c \<in> set (beforeChange ap e) \<Longrightarrow> changePhase c = 1"
  by (auto simp: beforeChange_def split: if_splits)

lemma returnChange_phase: "c \<in> set (returnChange b a) \<Longrightarrow> changePhase c = 2"
  by (auto simp: returnChange_def split: if_splits)

lemma filter_all: "(\<And>x. x \<in> set xs \<Longrightarrow> P x) \<Longrightarrow> filter P xs = xs"
  by (induction xs) auto

lemma filter_none: "(\<And>x. x \<in> set xs \<Longrightarrow> \<not> P x) \<Longrightarrow> filter P xs = []"
  by (induction xs) auto

text \<open>
  Claim C7, as stated, fails: the first loop emits \<open>parameter-type-changed\<close> together
  with \<open>parameter-added\<close>, in the order of \<open>afterParams\<close>, so a type change of an
  earlier parameter comes before the addition of a later one.
\<close>

theorem changes_order_counterexample:
  "map change_type (compareSignatures
      (func ''f'' [param ''a'' ''string'' False] ''void'')
      (func ''f'' [param ''a'' ''number'' False, param ''b'' ''string'' False] ''void'')) =
   [parameter_type_changed, parameter_added]"
  by (simp add: example_defs comparator_defs)

text \<open>
  Claim C7, amended. The list returned by \<open>compareSignatures\<close> has first the changes
  of the loop over \<open>afterParams\<close> (\<open>parameter-added\<close> and \<open>parameter-type-changed\<close>,
  interleaved, in the iteration order of \<open>afterParams\<close>), then the
  \<open>parameter-removed\<close> changes in the iteration order of \<open>beforeParams\<close>, then the
  \<open>return-type-changed\<close> change if the normalized return types differ; and the list
  is empty exactly when there is no drift.
\<close>

theorem changes_order:
  "sorted (map changePhase (compareSignatures before after)) \<and>
   subseq (map changeParamName (filter (\<lambda>c. changePhase c = 0) (compareSignatures before after)))
     (map (\<lambda>e. Some (fst e)) (paramMap after)) \<and>
   subseq (map changeParamName (filter (\<lambda>c. changePhase c = 1) (compareSignatures before after)))
     (map (\<lambda>e. Some (fst e)) (paramMap before)) \<and>
   filter (\<lambda>c. changePhase c = 2) (compareSignatures before after) =
     (if normalizeForComparison (returnType before) \<noteq> normalizeForComparison (returnType after)
      then [ReturnTypeChanged (returnType before) (returnType after)] else []) \<and>
   (compareSignatures before after = [] \<longleftrightarrow> noDrift before after)"
proof -
  let ?xs = "concat (map (afterChange (paramMap before)) (paramMap after))"
  let ?ys = "concat (map (beforeChange (paramMap after)) (paramMap before))"
  let ?zs = "returnChange before after"
  have cs: "compareSignatures before after = ?xs @ ?ys @ ?zs"
    by (rule compareSignatures_eq)
  have x: "changePhase c = 0" if "c \<in> set ?xs" for c
    using that afterChange_phase by auto
  have y: "changePhase c = 1" if "c \<in> set ?ys" for c
    using that beforeChange_phase by auto
  have z: "changePhase c = 2" if "c \<in> set ?zs" for c
    using that by (rule returnChange_phase)
  have "map changePhase ?xs = replicate (length ?xs) 0"
    using x by (simp add: map_replicate_const [symmetric] cong: map_cong)
  moreover have "map changePhase ?ys = replicate (length ?ys) 1"
    using y by (simp add: map_replicate_const [symmetric] cong: map_cong)
  moreover have "map changePhase ?zs = replicate (length ?zs) 2"
    using z by (simp add: map_replicate_const [symmetric] cong: map_cong)
  ultimately have 1: "sorted (map changePhase (compareSignatures before after))"
    by (simp add: cs sorted_append)
  have f0: "filter (\<lambda>c. changePhase c = 0) (compareSignatures before after) = ?xs"
    unfolding cs filter_append
    using filter_all [of ?xs "\<lambda>c. changePhase c = 0"]
      filter_none [of ?ys "\<lambda>c. changePhase c = 0"]
      filter_none [of ?zs "\<lambda>c. changePhase c = 0"] x y z by simp
  have f1: "filter (\<lambda>c. changePhase c = 1) (compareSignatures before after) = ?ys"
    unfolding cs filter_append
    using filter_none [of ?xs "\<lambda>c. changePhase c = 1"]
      filter_all [of ?ys "\<lambda>c. changePhase c = 1"]
      filter_none [of ?zs "\<lambda>c. changePhase c = 1"] x y z by simp
  have f2: "filter (\<lambda>c. changePhase c = 2) (compareSignatures before after) = ?zs"
    unfolding cs filter_append
    using filter_none [of ?xs "\<lambda>c. changePhase c = 2"]
      filter_none [of ?ys "\<lambda>c. changePhase c = 2"]
      filter_all [of ?zs "\<lambda>c. changePhase c = 2"] x y z by simp
  have 2: "subseq (map changeParamName ?xs) (map (\<lambda>e. Some (fst e)) (paramMap after))"
    by (rule subseq_concat_map) (rule afterChange_names)
  have 3: "subseq (map changeParamName ?ys) (map (\<lambda>e. Some (fst e)) (paramMap before))"
    by (rule subseq_concat_map) (rule beforeChange_names)
  show ?thesis
    unfolding f0 f1 f2 using 1 2 3 compareSignatures_Nil_iff [of before after]
    by (simp add: returnChange_def)
qed

theorem changes_order_witness:
  "sorted (map changePhase (compareSignatures
      (func ''f'' [param ''a'' ''string'' False, param ''c'' ''string'' False] ''void'')
      (func ''f'' [param ''a'' ''number'' False, param ''b'' ''string'' False] ''string''))) \<and>
   map change_type (compareSignatures
      (func ''f'' [param ''a'' ''string'' False, param ''c'' ''string'' False] ''void'')
      (func ''f'' [param ''a'' ''number'' False, param ''b'' ''string'' False] ''string'')) =
   [parameter_type_changed, parameter_added, parameter_removed, return_type_changed]"
  using changes_order [of "func ''f'' [param ''a'' ''string'' False, param ''c'' ''string'' False] ''void''"
      "func ''f'' [param ''a'' ''number'' False, param ''b'' ''string'' False] ''string''"]
  by (simp add: example_defs comparator_defs)

subsection \<open>Added parameters\<close>












section \<open>Properties of the validator\<close>

subsection \<open>Segments\<close>

lemma segments_nonempty: "segments p \<noteq> []"
  by (induction p) (auto split: list.splits)

lemma segments_append_slash: "segments (a @ slash # b) = segments a @ segments b"
proof (induction a)
  case Nil
  show ?case by simp
next
  case (Cons c a)
  obtain s ss where "segments a = s # ss"
    using segments_nonempty [of a] by (cases "segments a") auto
  with Cons show ?case by simp
qed

lemma segments_no_slash: "slash \<notin> set s \<Longrightarrow> segments s = [s]"
  by (induction s) auto

lemma segments_joinPath:
  "ns \<noteq> [] \<Longrightarrow> \<forall>s\<in>set ns. slash \<notin> set s \<Longrightarrow> segments (joinPath ns) = ns"
proof (induction ns rule: joinPath.induct)
  case 1
  then show ?case by simp
next
  case (2 s)
  then show ?case by (simp add: segments_no_slash)
next
  case (3 s t ss)
  then show ?case by (simp add: segments_append_slash segments_no_slash)
qed

lemma segments_slash_free: "s \<in> set (segments p) \<Longrightarrow> slash \<notin> set s"
proof (induction p arbitrary: s)
  case Nil
  then show ?case by simp
next
  case (Cons c p)
  obtain t ts where ts: "segments p = t # ts"
    using segments_nonempty [of p] by (cases "segments p") auto
  show ?case
  proof (cases "c = slash")
    case True
    with Cons show ?thesis by auto
  next
    case False
    with Cons.prems ts have "s = c # t \<or> s \<in> set ts" by simp
    then show ?thesis
      using Cons.IH [of t] Cons.IH [of s] ts False by auto
  qed
qed

lemma normStep_plain: "plain seg \<Longrightarrow> normStep f res seg = res @ [seg]"
  by (simp add: normStep_def plain_def)

lemma foldl_normStep_plain:
  "list_all plain ms \<Longrightarrow> foldl (normStep f) res ms = res @ ms"
  by (induction ms arbitrary: res) (simp_all add: normStep_plain)

lemma normStep_empty: "normStep f res [] = res"
  by (simp add: normStep_def)

lemma normStep_keeps_plain:
  assumes "list_all plain res" "slash \<notin> set seg"
  shows "list_all plain (normStep False res seg)"
proof -
  have "list_all plain (butlast res)"
    using assms(1) by (metis append_butlast_last_id butlast.simps(1) list_all_append)
  with assms show ?thesis
    by (auto simp: normStep_def plain_def)
qed

lemma foldl_normStep_keeps_plain:
  "list_all plain res \<Longrightarrow> \<forall>s\<in>set segs. slash \<notin> set s \<Longrightarrow>
   list_all plain (foldl (normStep False) res segs)"
  by (induction segs arbitrary: res) (simp_all add: normStep_keeps_plain)

lemma normalized_plain: "list_all plain (foldl (normStep False) ns (segments p))"
  if "list_all plain ns"
  using that by (rule foldl_normStep_keeps_plain) (simp add: segments_slash_free)

lemma segments_absPath:
  "list_all plain ns \<Longrightarrow> foldl (normStep False) [] (segments (absPath ns)) = ns"
proof -
  assume p: "list_all plain ns"
  have s: "segments (absPath ns) = [] # segments (joinPath ns)"
    by (simp add: absPath_def)
  show ?thesis
  proof (cases "ns = []")
    case True
    then show ?thesis by (simp add: absPath_def normStep_empty)
  next
    case False
    with p have "segments (joinPath ns) = ns"
      by (intro segments_joinPath) (auto simp: list_all_iff plain_def)
    with p show ?thesis by (simp add: s normStep_empty foldl_normStep_plain)
  qed
qed

lemma pathSegments_absPath: "list_all plain ns \<Longrightarrow> pathSegments (absPath ns) = ns"
proof -
  assume p: "list_all plain ns"
  have s: "segments (absPath ns) = [] # segments (joinPath ns)"
    by (simp add: absPath_def)
  have ne: "filter (\<lambda>s. s \<noteq> []) ns = ns"
    using p by (induction ns) (auto simp: plain_def)
  show ?thesis
  proof (cases "ns = []")
    case True
    then show ?thesis by (simp add: absPath_def pathSegments_def)
  next
    case False
    with p have "segments (joinPath ns) = ns"
      by (intro segments_joinPath) (auto simp: list_all_iff plain_def)
    with ne show ?thesis by (simp add: s pathSegments_def)
  qed
qed

lemma absPath_inject:
  "list_all plain ns \<Longrightarrow> list_all plain ms \<Longrightarrow> absPath ns = absPath ms \<Longrightarrow> ns = ms"
  by (metis pathSegments_absPath)


subsection \<open>resolve\<close>

lemma resolveLoop_absolute:
  "isAbsolute cwd \<Longrightarrow> snd (resolveLoop (ps @ [cwd]) rp ra)"
  by (induction ps arbitrary: rp ra) (auto simp: isAbsolute_def)

lemma path_resolve_absPath:
  assumes "isAbsolute cwd"
  shows "\<exists>ns. list_all plain ns \<and> path_resolve cwd args = absPath ns"
proof -
  obtain rp ra where r: "resolveLoop (rev args @ [cwd]) [] False = (rp, ra)"
    by (cases "resolveLoop (rev args @ [cwd]) [] False")
  with resolveLoop_absolute [OF assms, of "rev args" "[]" False] have ra by simp
  with r have "path_resolve cwd args = absPath (foldl (normStep False) [] (segments rp))"
    by (simp add: path_resolve_def normalizeString_def absPath_def)
  moreover have "list_all plain (foldl (normStep False) [] (segments rp))"
    by (rule normalized_plain) simp
  ultimately show ?thesis by blast
qed

lemma absPath_isAbsolute: "isAbsolute (absPath ns)"
  by (simp add: isAbsolute_def absPath_def)

lemma resolveLoop_done: "resolveLoop ps rp True = (rp, True)"
  by (cases ps) simp_all

lemma path_resolve_last_absolute:
  assumes "list_all plain ms"
  shows "path_resolve cwd (args @ [absPath ms]) = absPath ms"
proof -
  have "resolveLoop (rev (args @ [absPath ms]) @ [cwd]) [] False = (absPath ms @ [slash], True)"
    by (simp add: absPath_def resolveLoop_done)
  moreover have "segments (absPath ms @ [slash]) = segments (absPath ms) @ [[]]"
    using segments_append_slash [of "absPath ms" "[]"] by simp
  ultimately show ?thesis
    using segments_absPath [OF assms]
    by (simp add: path_resolve_def normalizeString_def normStep_empty) (simp add: absPath_def)
qed

lemma path_resolve_relative:
  assumes ns: "list_all plain ns" and t: "t \<noteq> []" "hd t \<noteq> slash"
  shows "path_resolve cwd [absPath ns, t] = absPath (foldl (normStep False) ns (segments t))"
proof -
  have "resolveLoop (rev [absPath ns, t] @ [cwd]) [] False =
        (absPath ns @ slash # t @ [slash], True)"
    using t by (simp add: absPath_def resolveLoop_done)
  moreover have "segments (absPath ns @ slash # t @ [slash]) =
      segments (absPath ns) @ segments t @ [[]]"
    using segments_append_slash [of "absPath ns" "t @ [slash]"]
      segments_append_slash [of t "[]"] by simp
  ultimately show ?thesis
    using segments_absPath [OF ns]
    by (simp add: path_resolve_def normalizeString_def normStep_empty) (simp add: absPath_def)
qed

lemma hd_joinPath: "ms \<noteq> [] \<Longrightarrow> hd ms \<noteq> [] \<Longrightarrow> hd (joinPath ms) = hd (hd ms)"
  by (induction ms rule: joinPath.induct) auto

lemma joinPath_nonempty: "ms \<noteq> [] \<Longrightarrow> hd ms \<noteq> [] \<Longrightarrow> joinPath ms \<noteq> []"
  by (induction ms rule: joinPath.induct) auto

lemma path_resolve_plain:
  assumes ns: "list_all plain ns" and ms: "list_all plain ms" "ms \<noteq> []"
  shows "path_resolve cwd [absPath ns, joinPath ms] = absPath (ns @ ms)"
proof -
  from ms have h: "hd ms \<noteq> []" "slash \<notin> set (hd ms)"
    by (cases ms; simp add: plain_def)+
  then have "hd (hd ms) \<noteq> slash" by (cases "hd ms") auto
  with ms h have t: "joinPath ms \<noteq> []" "hd (joinPath ms) \<noteq> slash"
    by (simp_all add: joinPath_nonempty hd_joinPath)
  have "segments (joinPath ms) = ms"
    using ms by (intro segments_joinPath) (auto simp: list_all_iff plain_def)
  with path_resolve_relative [OF ns t] ms show ?thesis
    by (simp add: foldl_normStep_plain)
qed

subsection \<open>relative\<close>

lemma commonPrefix_append: "commonPrefix ns (ns @ ms) = length ns"
  by (induction ns) auto

lemma path_relative_below:
  assumes ns: "list_all plain ns" and ms: "list_all plain ms"
  shows "path_relative cwd (absPath ns) (absPath (ns @ ms)) = joinPath ms"
proof (cases "ms = []")
  case True
  then show ?thesis by (simp add: path_relative_def)
next
  case False
  from ns ms have nm: "list_all plain (ns @ ms)" by simp
  have ne: "absPath ns \<noteq> absPath (ns @ ms)"
    using absPath_inject [OF ns nm] False by auto
  have r1: "path_resolve cwd [absPath ns] = absPath ns"
    using path_resolve_last_absolute [OF ns, of cwd "[]"] by simp
  have r2: "path_resolve cwd [absPath (ns @ ms)] = absPath (ns @ ms)"
    using path_resolve_last_absolute [OF nm, of cwd "[]"] by simp
  show ?thesis
    using ne
    by (simp add: path_relative_def r1 r2 Let_def pathSegments_absPath [OF ns]
        pathSegments_absPath [OF nm] commonPrefix_append)
qed


subsection \<open>trim\<close>

lemma dropWhile_none: "\<forall>c\<in>set s. \<not> P c \<Longrightarrow> dropWhile P s = s"
  by (cases s) auto

lemma trim_no_whitespace: "\<not> list_ex isWhiteSpace s \<Longrightarrow> trim s = s"
  by (simp add: trim_def list_ex_iff dropWhile_none)

lemma length_trim_le: "length (trim s) \<le> length s"
proof -
  have "length (trim s) \<le> length (dropWhile isWhiteSpace s)"
    unfolding trim_def length_rev
    using length_dropWhile_le [of isWhiteSpace "rev (dropWhile isWhiteSpace s)"] by simp
  also have "\<dots> \<le> length s" by (rule length_dropWhile_le)
  finally show ?thesis .
qed

lemma unsafe_whitespace: "isWhiteSpace c \<Longrightarrow> UNSAFE_REF_CHARS c"
  by (simp add: UNSAFE_REF_CHARS_def)

subsection \<open>validateGitRef\<close>

lemma validateGitRef_string:
  "validateGitRef (JString s) =
     (if trim s = [] then Inl (Error (u16 ''Git ref cannot be empty''))
      else if length (trim s) > 256 then Inl (Error (u16 ''Git ref exceeds maximum length (256)''))
      else if list_ex isControl s \<or> list_ex UNSAFE_REF_CHARS s
      then Inl (Error (u16
        ''Git ref contains invalid characters. Use only alphanumeric, hyphens, dots, slashes.''))
      else Inr (trim s))"
  by (simp add: validateGitRef_def Let_def)

lemma validateGitRef_accepts_iff:
  "\<not> isl (validateGitRef (JString s)) \<longleftrightarrow>
     trim s \<noteq> [] \<and> length s \<le> 256 \<and> \<not> list_ex isControl s \<and> \<not> list_ex UNSAFE_REF_CHARS s"
proof (cases "list_ex UNSAFE_REF_CHARS s")
  case True
  then show ?thesis by (simp add: validateGitRef_string)
next
  case False
  then have "\<not> list_ex isWhiteSpace s"
    using unsafe_whitespace by (auto simp: list_ex_iff)
  then have "trim s = s" by (rule trim_no_whitespace)
  with False show ?thesis by (auto simp: validateGitRef_string)
qed

lemma validateGitRef_result:
  "validateGitRef (JString s) = Inr r \<Longrightarrow> r = s \<and> trim s = s"
proof -
  assume a: "validateGitRef (JString s) = Inr r"
  then have "\<not> isl (validateGitRef (JString s))" by simp
  then have "\<not> list_ex UNSAFE_REF_CHARS s" by (simp add: validateGitRef_accepts_iff)
  then have "\<not> list_ex isWhiteSpace s"
    using unsafe_whitespace by (auto simp: list_ex_iff)
  then have "trim s = s" by (rule trim_no_whitespace)
  with a show ?thesis by (simp add: validateGitRef_string split: if_splits)
qed

lemmas gitref_defs = validateGitRef_def trim_def isWhiteSpace_def isControl_def
  UNSAFE_REF_CHARS_def u16_def

text \<open>
  Claim C4. \<open>validateGitRef\<close> rejects an argument that is not a string; it rejects a
  string exactly when the string is empty or only white space, is longer than 256, or
  contains a control character or a character of the reserved set (quotes, backtick,
  dollar, backslash, semicolon, pipe, ampersand, angle brackets, parentheses, white
  space); every other string is returned trimmed. \<open>"main; rm -rf /"\<close> fails with
  the invalid-character error and \<open>"origin/main"\<close> is returned as it is.
\<close>

theorem validateGitRef_spec:
  "(case ref of
      JString s \<Rightarrow>
        (isl (validateGitRef ref) \<longleftrightarrow>
           trim s = [] \<or> length s > 256 \<or> list_ex isControl s \<or> list_ex UNSAFE_REF_CHARS s) \<and>
        (\<not> isl (validateGitRef ref) \<longrightarrow> validateGitRef ref = Inr (trim s))
    | _ \<Rightarrow> validateGitRef ref = Inl (Error (u16 ''Git ref must be a string''))) \<and>
   validateGitRef (JString (u16 ''main; rm -rf /'')) =
     Inl (Error (u16
       ''Git ref contains invalid characters. Use only alphanumeric, hyphens, dots, slashes.'')) \<and>
   validateGitRef (JString (u16 ''origin/main'')) = Inr (u16 ''origin/main'')"
proof -
  have 1: "validateGitRef (JString (u16 ''main; rm -rf /'')) =
     Inl (Error (u16
       ''Git ref contains invalid characters. Use only alphanumeric, hyphens, dots, slashes.''))"
    by (simp add: gitref_defs)
  have 2: "validateGitRef (JString (u16 ''origin/main'')) = Inr (u16 ''origin/main'')"
    by (simp add: gitref_defs)
  have 3: "(isl (validateGitRef (JString s)) \<longleftrightarrow>
           trim s = [] \<or> length s > 256 \<or> list_ex isControl s \<or> list_ex UNSAFE_REF_CHARS s) \<and>
        (\<not> isl (validateGitRef (JString s)) \<longrightarrow> validateGitRef (JString s) = Inr (trim s))" for s
    using validateGitRef_accepts_iff [of s]
    by (auto simp: validateGitRef_string split: if_splits)
  have 4: "validateGitRef ref = Inl (Error (u16 ''Git ref must be a string''))"
    if "\<And>s. ref \<noteq> JString s"
    using that by (cases ref) (auto simp: validateGitRef_def)
  have "case ref of
      JString s \<Rightarrow>
        (isl (validateGitRef ref) \<longleftrightarrow>
           trim s = [] \<or> length s > 256 \<or> list_ex isControl s \<or> list_ex UNSAFE_REF_CHARS s) \<and>
        (\<not> isl (validateGitRef ref) \<longrightarrow> validateGitRef ref = Inr (trim s))
    | _ \<Rightarrow> validateGitRef ref = Inl (Error (u16 ''Git ref must be a string''))"
  proof (cases ref)
    case (JString s)
    with 3 [of s] show ?thesis by simp
  qed (use 4 in simp_all)
  with 1 2 show ?thesis by blast
qed

theorem validateGitRef_spec_witness:
  "\<not> isl (validateGitRef (JString (u16 ''v1.0.0''))) \<and>
   validateGitRef (JString (u16 ''v1.0.0'')) = Inr (trim (u16 ''v1.0.0''))"
proof -
  have "\<not> isl (validateGitRef (JString (u16 ''v1.0.0'')))"
    by (simp add: gitref_defs)
  with validateGitRef_spec [of "JString (u16 ''v1.0.0'')"] show ?thesis by simp
qed


subsection \<open>validatePath\<close>

lemma Number_toString_MAX: "Number_toString (SafeInteger (int MAX_PATH_LENGTH)) = u16 ''4096''"
  by (simp add: Number_toString.simps MAX_PATH_LENGTH_def u16_def digits.simps [of 4096]
      digits.simps [of 409] digits.simps [of 40] digits.simps [of 4])

lemma validatePath_string:
  "validatePath cwd (JString s) baseDir =
     (if trim s = [] then Inl (Error (u16 ''Path cannot be empty''))
      else if length (trim s) > 4096
      then Inl (Error (u16 ''Path exceeds maximum length (4096)''))
      else if startsWith (path_relative cwd (resolvedBase cwd baseDir)
                 (path_resolve cwd [resolvedBase cwd baseDir, trim s])) (u16 ''..'') \<or>
              startsWith (path_relative cwd (resolvedBase cwd baseDir)
                 (path_resolve cwd [resolvedBase cwd baseDir, trim s])) (u16 ''/'')
      then Inl (Error (u16 ''Path resolves outside allowed directory''))
      else Inr (path_resolve cwd [resolvedBase cwd baseDir, trim s]))"
proof -
  have "u16 ''Path exceeds maximum length ('' @ Number_toString (SafeInteger (int MAX_PATH_LENGTH)) @ u16 '')'' =
        u16 ''Path exceeds maximum length (4096)''"
    by (simp add: Number_toString_MAX u16_def)
  then show ?thesis
    by (simp add: validatePath_def Let_def resolvedBase_def MAX_PATH_LENGTH_def)
qed

lemma validatePath_not_string:
  "(\<And>s. path \<noteq> JString s) \<Longrightarrow>
   validatePath cwd path baseDir = Inl (Error (u16 ''Path must be a string''))"
  by (cases path) (auto simp: validatePath_def)

lemma resolvedBase_absPath:
  "isAbsolute cwd \<Longrightarrow> \<exists>ns. list_all plain ns \<and> resolvedBase cwd baseDir = absPath ns"
  unfolding resolvedBase_def by (rule path_resolve_absPath)

lemma validatePath_plain:
  assumes base: "resolvedBase cwd baseDir = absPath ns" "list_all plain ns"
    and ms: "list_all plain ms" "ms \<noteq> []"
    and s: "trim s = joinPath ms" "length (joinPath ms) \<le> 4096"
      "\<not> startsWith (joinPath ms) (u16 ''..'')"
  shows "validatePath cwd (JString s) baseDir = Inr (absPath (ns @ ms))"
proof -
  from ms have h: "hd ms \<noteq> []" "slash \<notin> set (hd ms)"
    by (cases ms; simp add: plain_def)+
  then have "hd (hd ms) \<noteq> slash" by (cases "hd ms") auto
  with ms h have t: "joinPath ms \<noteq> []" "hd (joinPath ms) \<noteq> slash"
    by (simp_all add: joinPath_nonempty hd_joinPath)
  then have sl: "\<not> startsWith (joinPath ms) (u16 ''/'')"
    by (cases "joinPath ms") (simp_all add: startsWith_def u16_def slash_def)
  have r: "path_resolve cwd [absPath ns, joinPath ms] = absPath (ns @ ms)"
    by (rule path_resolve_plain [OF base(2) ms])
  have rel: "path_relative cwd (absPath ns) (absPath (ns @ ms)) = joinPath ms"
    by (rule path_relative_below [OF base(2) ms(1)])
  show ?thesis
    using t s sl by (simp add: validatePath_string base(1) r rel)
qed

lemma prefix_absPath: "prefix (absPath ns) (absPath (ns @ ms))"
proof -
  have "prefix (joinPath ns) (joinPath (ns @ ms))"
  proof (induction ns rule: joinPath.induct)
    case 1
    show ?case by simp
  next
    case (2 s)
    show ?case by (cases ms) simp_all
  next
    case (3 s t ss)
    then show ?case by simp
  qed
  then show ?thesis by (simp add: absPath_def)
qed

lemmas path_defs = path_resolve_def path_relative_def normalizeString_def normStep_def
  pathSegments_def slash_def dot_def dotdot_def startsWith_def trim_def isWhiteSpace_def u16_def

lemma plain_tsconfig: "plain (u16 ''tsconfig.json'')"
  by (simp add: plain_def u16_def dot_def dotdot_def slash_def)

text \<open>
  Claim C3, as stated, fails: the length limit is checked on the trimmed path, so an
  input longer than 4096 is accepted when white space makes up the excess. The input
  below has 4097 code units.
\<close>

lemma trim_padded: "trim (u16 ''a'' @ replicate 4096 0x20) = u16 ''a''"
proof -
  have "dropWhile isWhiteSpace (replicate 4096 0x20 @ [0x61]) = [0x61]"
    by (subst dropWhile_append2) (simp_all add: isWhiteSpace_def)
  then show ?thesis
    by (simp add: trim_def u16_def isWhiteSpace_def)
qed

theorem validatePath_padded_counterexample:
  "length (u16 ''a'' @ replicate 4096 0x20) = 4097 \<and>
   validatePath (u16 ''/home/project'') (JString (u16 ''a'' @ replicate 4096 0x20))
     (Some (u16 ''/home/project'')) = Inr (u16 ''/home/project/a'')"
proof -
  have "validatePath (u16 ''/home/project'') (JString (u16 ''a'' @ replicate 4096 0x20))
     (Some (u16 ''/home/project'')) = Inr (u16 ''/home/project/a'')"
    unfolding validatePath_string trim_padded
    by (simp add: resolvedBase_def resolveLoop_done path_defs)
  then show ?thesis by (simp add: u16_def)
qed

text \<open>With the root as base, \<open>"../../../etc/passwd"\<close> resolves inside the base and is
  accepted.\<close>

lemma validatePath_root_base_example:
  "validatePath (u16 ''/repo'') (JString (u16 ''../../../etc/passwd'')) (Some (u16 ''/'')) =
     Inr (u16 ''/etc/passwd'')"
  by (simp add: validatePath_string resolvedBase_def resolveLoop_done path_defs)

text \<open>
  Claim C3, amended. \<open>validatePath\<close> rejects an argument that is not a string, a
  string that is empty once trimmed, and a string whose trimmed form is longer than
  4096. Otherwise it resolves the trimmed path against the resolved base directory,
  fails with the traversal error when the relative path from the base to the resolved
  path starts with \<open>..\<close> or with a slash, and returns the resolved path if not. With
  the base \<open>/home/project\<close>, \<open>"../../../etc/passwd"\<close> fails with the traversal
  error; and for every base (the working directory being absolute),
  \<open>"tsconfig.json"\<close> succeeds and returns the absolute path of \<open>tsconfig.json\<close> in
  the resolved base.
\<close>

theorem validatePath_spec:
  "(case path of
      JString s \<Rightarrow>
        (trim s = [] \<longrightarrow>
           validatePath cwd path baseDir = Inl (Error (u16 ''Path cannot be empty''))) \<and>
        (4096 < length (trim s) \<longrightarrow>
           validatePath cwd path baseDir =
             Inl (Error (u16 ''Path exceeds maximum length (4096)''))) \<and>
        (trim s \<noteq> [] \<and> length (trim s) \<le> 4096 \<longrightarrow>
           validatePath cwd path baseDir =
             (if startsWith (path_relative cwd (resolvedBase cwd baseDir)
                   (path_resolve cwd [resolvedBase cwd baseDir, trim s])) (u16 ''..'') \<or>
                 startsWith (path_relative cwd (resolvedBase cwd baseDir)
                   (path_resolve cwd [resolvedBase cwd baseDir, trim s])) (u16 ''/'')
              then Inl (Error (u16 ''Path resolves outside allowed directory''))
              else Inr (path_resolve cwd [resolvedBase cwd baseDir, trim s])))
    | _ \<Rightarrow> validatePath cwd path baseDir = Inl (Error (u16 ''Path must be a string''))) \<and>
   validatePath cwd (JString (u16 ''../../../etc/passwd'')) (Some (u16 ''/home/project'')) =
     Inl (Error (u16 ''Path resolves outside allowed directory'')) \<and>
   (isAbsolute cwd \<longrightarrow>
      (\<exists>ns. list_all plain ns \<and> resolvedBase cwd baseDir = absPath ns \<and>
         validatePath cwd (JString (u16 ''tsconfig.json'')) baseDir =
           Inr (absPath (ns @ [u16 ''tsconfig.json''])) \<and>
         prefix (absPath ns) (absPath (ns @ [u16 ''tsconfig.json'']))))"
proof -
  have 1: "case path of
      JString s \<Rightarrow>
        (trim s = [] \<longrightarrow>
           validatePath cwd path baseDir = Inl (Error (u16 ''Path cannot be empty''))) \<and>
        (4096 < length (trim s) \<longrightarrow>
           validatePath cwd path baseDir =
             Inl (Error (u16 ''Path exceeds maximum length (4096)''))) \<and>
        (trim s \<noteq> [] \<and> length (trim s) \<le> 4096 \<longrightarrow>
           validatePath cwd path baseDir =
             (if startsWith (path_relative cwd (resolvedBase cwd baseDir)
                   (path_resolve cwd [resolvedBase cwd baseDir, trim s])) (u16 ''..'') \<or>
                 startsWith (path_relative cwd (resolvedBase cwd baseDir)
                   (path_resolve cwd [resolvedBase cwd baseDir, trim s])) (u16 ''/'')
              then Inl (Error (u16 ''Path resolves outside allowed directory''))
              else Inr (path_resolve cwd [resolvedBase cwd baseDir, trim s])))
    | _ \<Rightarrow> validatePath cwd path baseDir = Inl (Error (u16 ''Path must be a string''))"
  proof (cases path)
    case (JString s)
    have "trim s = [] \<Longrightarrow> \<not> 4096 < length (trim s)" by simp
    then show ?thesis
      unfolding JString by (auto simp: validatePath_string)
  qed (use validatePath_not_string [of path cwd baseDir] in simp_all)
  have 2: "validatePath cwd (JString (u16 ''../../../etc/passwd'')) (Some (u16 ''/home/project'')) =
     Inl (Error (u16 ''Path resolves outside allowed directory''))"
    by (simp add: validatePath_string resolvedBase_def resolveLoop_done path_defs)
  have 3: "\<exists>ns. list_all plain ns \<and> resolvedBase cwd baseDir = absPath ns \<and>
         validatePath cwd (JString (u16 ''tsconfig.json'')) baseDir =
           Inr (absPath (ns @ [u16 ''tsconfig.json''])) \<and>
         prefix (absPath ns) (absPath (ns @ [u16 ''tsconfig.json'']))"
    if "isAbsolute cwd"
  proof -
    from resolvedBase_absPath [OF that] obtain ns where
      ns: "list_all plain ns" "resolvedBase cwd baseDir = absPath ns" by blast
    have "validatePath cwd (JString (u16 ''tsconfig.json'')) baseDir =
        Inr (absPath (ns @ [u16 ''tsconfig.json'']))"
    proof (rule validatePath_plain [OF ns(2) ns(1)])
      show "list_all plain [u16 ''tsconfig.json'']" by (simp add: plain_tsconfig)
      show "trim (u16 ''tsconfig.json'') = joinPath [u16 ''tsconfig.json'']"
        by (simp add: trim_def isWhiteSpace_def u16_def)
      show "length (joinPath [u16 ''tsconfig.json'']) \<le> 4096" by (simp add: u16_def)
      show "\<not> startsWith (joinPath [u16 ''tsconfig.json'']) (u16 ''..'')"
        by (simp add: startsWith_def u16_def)
    qed simp
    with ns prefix_absPath show ?thesis by blast
  qed
  from 1 2 3 show ?thesis by blast
qed

theorem validatePath_spec_witness:
  "isAbsolute (u16 ''/work'') \<and>
   validatePath (u16 ''/work'') (JString (u16 ''tsconfig.json'')) (Some (u16 ''/home/project'')) =
     Inr (u16 ''/home/project/tsconfig.json'') \<and>
   trim (u16 ''  ../x '') \<noteq> [] \<and> length (trim (u16 ''  ../x '')) \<le> 4096 \<and>
   validatePath (u16 ''/work'') (JString (u16 ''  ../x '')) None =
     Inl (Error (u16 ''Path resolves outside allowed directory'')) \<and>
   trim (u16 ''   '') = [] \<and>
   validatePath (u16 ''/work'') (JString (u16 ''   '')) None =
     Inl (Error (u16 ''Path cannot be empty'')) \<and>
   4096 < length (trim (replicate 4097 0x61)) \<and>
   validatePath (u16 ''/work'') (JString (replicate 4097 0x61)) None =
     Inl (Error (u16 ''Path exceeds maximum length (4096)'')) \<and>
   validatePath (u16 ''/work'') JNull None = Inl (Error (u16 ''Path must be a string''))"
proof -
  have a: "isAbsolute (u16 ''/work'')"
    by (simp add: isAbsolute_def u16_def slash_def)
  have b: "resolvedBase (u16 ''/work'') (Some (u16 ''/home/project'')) =
      absPath [u16 ''home'', u16 ''project'']"
    by (simp add: resolvedBase_def absPath_def resolveLoop_done path_defs)
  have p: "list_all plain [u16 ''home'', u16 ''project'']"
    by (simp add: plain_def u16_def dot_def dotdot_def slash_def)
  from validatePath_spec [where path = "JString (u16 ''tsconfig.json'')" and cwd = "u16 ''/work''"
      and baseDir = "Some (u16 ''/home/project'')"] a
  obtain ns where ns: "list_all plain ns"
    "resolvedBase (u16 ''/work'') (Some (u16 ''/home/project'')) = absPath ns"
    "validatePath (u16 ''/work'') (JString (u16 ''tsconfig.json'')) (Some (u16 ''/home/project'')) =
       Inr (absPath (ns @ [u16 ''tsconfig.json'']))"
    by blast
  from ns(1,2) b p have "ns = [u16 ''home'', u16 ''project'']"
    using absPath_inject by metis
  with ns(3) have 1: "validatePath (u16 ''/work'') (JString (u16 ''tsconfig.json''))
      (Some (u16 ''/home/project'')) = Inr (u16 ''/home/project/tsconfig.json'')"
    by (simp add: absPath_def u16_def slash_def)
  have t: "trim (u16 ''  ../x '') = u16 ''../x''"
    by (simp add: trim_def isWhiteSpace_def u16_def)
  have 2: "trim (u16 ''  ../x '') \<noteq> []" "length (trim (u16 ''  ../x '')) \<le> 4096"
    by (simp_all add: t) (simp_all add: u16_def)
  from validatePath_spec [where path = "JString (u16 ''  ../x '')" and cwd = "u16 ''/work''"
      and baseDir = None] 2
  have "validatePath (u16 ''/work'') (JString (u16 ''  ../x '')) None =
      (if startsWith (path_relative (u16 ''/work'') (resolvedBase (u16 ''/work'') None)
            (path_resolve (u16 ''/work'') [resolvedBase (u16 ''/work'') None, trim (u16 ''  ../x '')]))
            (u16 ''..'') \<or>
          startsWith (path_relative (u16 ''/work'') (resolvedBase (u16 ''/work'') None)
            (path_resolve (u16 ''/work'') [resolvedBase (u16 ''/work'') None, trim (u16 ''  ../x '')]))
            (u16 ''/'')
       then Inl (Error (u16 ''Path resolves outside allowed directory''))
       else Inr (path_resolve (u16 ''/work'') [resolvedBase (u16 ''/work'') None, trim (u16 ''  ../x '')]))"
    by simp
  then have 3: "validatePath (u16 ''/work'') (JString (u16 ''  ../x '')) None =
     Inl (Error (u16 ''Path resolves outside allowed directory''))"
    unfolding t by (simp add: resolvedBase_def resolveLoop_done path_defs)
  have 4: "trim (u16 ''   '') = []"
    by (simp add: trim_def isWhiteSpace_def u16_def)
  from validatePath_spec [where path = "JString (u16 ''   '')" and cwd = "u16 ''/work''"
      and baseDir = None] 4
  have 5: "validatePath (u16 ''/work'') (JString (u16 ''   '')) None =
      Inl (Error (u16 ''Path cannot be empty''))"
    by simp
  have "trim (replicate 4097 (0x61 :: code_unit)) = replicate 4097 0x61"
    by (rule trim_no_whitespace) (simp add: list_ex_iff isWhiteSpace_def)
  then have 6: "4096 < length (trim (replicate 4097 (0x61 :: code_unit)))"
    by simp
  from validatePath_spec [where path = "JString (replicate 4097 0x61)" and cwd = "u16 ''/work''"
      and baseDir = None] 6
  have 7: "validatePath (u16 ''/work'') (JString (replicate 4097 0x61)) None =
      Inl (Error (u16 ''Path exceeds maximum length (4096)''))"
    by simp
  from validatePath_spec [where path = JNull and cwd = "u16 ''/work''" and baseDir = None]
  have 8: "validatePath (u16 ''/work'') JNull None = Inl (Error (u16 ''Path must be a string''))"
    by simp
  from a 1 2 3 4 5 6 7 8 show ?thesis by blast
qed

section \<open>Properties of the snapshot store\<close>

subsection \<open>JSON round trip of typed values\<close>

lemma jsonValue_ParameterSignature [simp]:
  "jsonValue (ParameterSignature_toJS p) = ParameterSignature_toJS p"
  by (simp add: ParameterSignature_toJS_def)

lemma ParameterSignature_defined [simp]: "ParameterSignature_toJS p \<noteq> JUndefined"
  by (simp add: ParameterSignature_toJS_def)

lemma jsonValue_FunctionSignature [simp]:
  "jsonValue (FunctionSignature_toJS f) = FunctionSignature_toJS f"
  by (simp add: FunctionSignature_toJS_def comp_def)

lemma FunctionSignature_defined [simp]: "FunctionSignature_toJS f \<noteq> JUndefined"
  by (simp add: FunctionSignature_toJS_def)

lemma jsonValue_InterfaceProperty [simp]:
  "jsonValue (InterfaceProperty_toJS p) = InterfaceProperty_toJS p"
  by (simp add: InterfaceProperty_toJS_def)

lemma InterfaceProperty_defined [simp]: "InterfaceProperty_toJS p \<noteq> JUndefined"
  by (simp add: InterfaceProperty_toJS_def)

lemma jsonValue_InterfaceDefinition [simp]:
  "jsonValue (InterfaceDefinition_toJS d) = InterfaceDefinition_toJS d"
  by (simp add: InterfaceDefinition_toJS_def comp_def)

lemma InterfaceDefinition_defined [simp]: "InterfaceDefinition_toJS d \<noteq> JUndefined"
  by (simp add: InterfaceDefinition_toJS_def)

lemma jsonValue_TypeAliasDefinition [simp]:
  "jsonValue (TypeAliasDefinition_toJS d) = TypeAliasDefinition_toJS d"
  by (simp add: TypeAliasDefinition_toJS_def)

lemma TypeAliasDefinition_defined [simp]: "TypeAliasDefinition_toJS d \<noteq> JUndefined"
  by (simp add: TypeAliasDefinition_toJS_def)

lemma jsonValue_SymbolRegistry [simp]:
  "jsonValue (SymbolRegistry_toJS r) = SymbolRegistry_toJS r"
  by (simp add: SymbolRegistry_toJS_def comp_def filter_map)

lemma jsonValue_ProjectSnapshot [simp]:
  "jsonValue (ProjectSnapshot_toJS s) = ProjectSnapshot_toJS s"
  by (simp add: ProjectSnapshot_toJS_def) (simp add: SymbolRegistry_toJS_def)


lemma key_neq:
  "u16 ''metadata'' \<noteq> u16 ''snapshot''" "u16 ''snapshot'' \<noteq> u16 ''metadata''"
  by (simp_all add: u16_def)

lemma stored_snapshot_prop:
  "get_prop (jsonValue (StoredSnapshot_toJS st)) ''snapshot'' = ProjectSnapshot_toJS (snapshot st)"
proof -
  have "ProjectSnapshot_toJS (snapshot st) \<noteq> JUndefined"
    by (simp add: ProjectSnapshot_toJS_def)
  then show ?thesis
    by (simp add: StoredSnapshot_toJS_def get_prop_def key_neq)
qed

lemma stored_metadata_prop:
  "get_prop (jsonValue (StoredSnapshot_toJS st)) ''metadata'' = metadata_json (metadata st)"
  by (simp add: StoredSnapshot_toJS_def get_prop_def metadata_json_def optional_toJS_def
      split: option.splits)

lemma metadata_version:
  "get_prop (metadata_json m) ''version'' = jsonValue (JNumber (version m))"
  by (simp add: metadata_json_def get_prop_def)

lemma jsonValue_version: "jsonValue (JNumber SNAPSHOT_FORMAT_VERSION) = JNumber SNAPSHOT_FORMAT_VERSION"
  by (simp add: SNAPSHOT_FORMAT_VERSION_def)

lemma metadata_gitRef:
  "get_prop (metadata_json m) ''gitRef'' = optional_toJS (gitRef m)"
  by (simp add: metadata_json_def get_prop_def optional_toJS_def u16_def split: option.splits)

lemma metadata_gitSha:
  "get_prop (metadata_json m) ''gitSha'' = optional_toJS (gitSha m)"
  by (simp add: metadata_json_def get_prop_def optional_toJS_def u16_def split: option.splits)

lemma stored_isStoredSnapshot:
  assumes "version (metadata st) = SNAPSHOT_FORMAT_VERSION"
  shows "isStoredSnapshot (jsonValue (StoredSnapshot_toJS st))"
proof -
  have "is_object (jsonValue (StoredSnapshot_toJS st))"
    by (simp add: StoredSnapshot_toJS_def)
  moreover have "is_object (metadata_json (metadata st))"
    by (simp add: metadata_json_def)
  moreover have "is_object (ProjectSnapshot_toJS (snapshot st))"
    by (simp add: ProjectSnapshot_toJS_def)
  ultimately show ?thesis
    by (simp add: isStoredSnapshot_def stored_snapshot_prop stored_metadata_prop metadata_version
        assms jsonValue_version)
qed

subsection \<open>Saving and loading\<close>

lemma saveSnapshot_Inr:
  assumes "saveSnapshot w snap tsConfig options = Inr (p, w')"
  shows "validatePath (process_cwd w) (JString (outputArg options)) (Some (saveBase w options)) = Inr p"
    and "\<exists>rt. validatePath (process_cwd w) (JString tsConfig) (Some (saveBase w options)) = Inr rt \<and>
           files w' p = Some (JSON_stringify (StoredSnapshot_toJS (storedBy w snap rt options)))"
    and "process_cwd w' = process_cwd w"
  using assms
  by (auto simp: saveSnapshot_def Let_def outputArg_def saveBase_def storedBy_def
      writeFileSync_def mkdirSync_recursive_def split: sum.splits if_splits)

lemma loadSnapshot_stored:
  assumes vp: "validatePath (process_cwd w) (JString path)
      (Some (case lo_baseDir options of None \<Rightarrow> process_cwd w | Some b \<Rightarrow> b)) = Inr rp"
    and f: "files w rp = Some (JSON_stringify (StoredSnapshot_toJS st))"
    and v: "version (metadata st) = SNAPSHOT_FORMAT_VERSION"
  shows "loadSnapshot w path options = Inr (jsonValue (StoredSnapshot_toJS st))"
  using vp f v
  by (simp add: loadSnapshot_def Let_def existsSync_def readFileSync_def JSON_stringify_def
      JSON_parse_def stored_isStoredSnapshot stored_metadata_prop metadata_version
      jsonValue_version)

lemma Number_toString_version: "Number_toString SNAPSHOT_FORMAT_VERSION = u16 ''1''"
  by (simp add: Number_toString.simps SNAPSHOT_FORMAT_VERSION_def u16_def
      digits.simps [of "Suc 0"])

lemma loadSnapshot_unsupported:
  assumes vp: "validatePath (process_cwd w) (JString path)
      (Some (case lo_baseDir options of None \<Rightarrow> process_cwd w | Some b \<Rightarrow> b)) = Inr rp"
    and f: "files w rp = Some (JsonText v)"
    and s: "isStoredSnapshot v"
    and n: "get_prop (get_prop v ''metadata'') ''version'' = JNumber n"
    and ne: "n \<noteq> SNAPSHOT_FORMAT_VERSION"
  shows "loadSnapshot w path options =
     Inl (Error (u16 ''Unsupported snapshot version: '' @ Number_toString n @
                 u16 ''. Current version is '' @ u16 ''1'' @
                 u16 ''. Please regenerate the snapshot.''))"
  using vp f s n ne
  by (simp add: loadSnapshot_def Let_def existsSync_def readFileSync_def JSON_parse_def
      Number_toString_version)


subsection \<open>Typed values and their objects\<close>

lemma inj_ParameterSignature_toJS: "inj ParameterSignature_toJS"
proof (rule injI)
  fix p q assume "ParameterSignature_toJS p = ParameterSignature_toJS q"
  then show "p = q"
    by (cases p; cases q) (simp add: ParameterSignature_toJS_def)
qed

lemma inj_InterfaceProperty_toJS: "inj InterfaceProperty_toJS"
proof (rule injI)
  fix p q assume "InterfaceProperty_toJS p = InterfaceProperty_toJS q"
  then show "p = q"
    by (cases p; cases q) (simp add: InterfaceProperty_toJS_def)
qed

lemma inj_FunctionSignature_toJS: "inj FunctionSignature_toJS"
proof (rule injI)
  fix f g assume a: "FunctionSignature_toJS f = FunctionSignature_toJS g"
  then have "map ParameterSignature_toJS (parameters f) =
      map ParameterSignature_toJS (parameters g)"
    by (simp add: FunctionSignature_toJS_def)
  then have "parameters f = parameters g"
    by (simp add: inj_map_eq_map [OF inj_ParameterSignature_toJS])
  with a show "f = g"
    by (cases f; cases g) (simp add: FunctionSignature_toJS_def)
qed

lemma inj_InterfaceDefinition_toJS: "inj InterfaceDefinition_toJS"
proof (rule injI)
  fix d e assume a: "InterfaceDefinition_toJS d = InterfaceDefinition_toJS e"
  then have "map InterfaceProperty_toJS (properties d) =
      map InterfaceProperty_toJS (properties e)"
    by (simp add: InterfaceDefinition_toJS_def)
  then have "properties d = properties e"
    by (simp add: inj_map_eq_map [OF inj_InterfaceProperty_toJS])
  with a show "d = e"
    by (cases d; cases e) (simp add: InterfaceDefinition_toJS_def)
qed

lemma inj_TypeAliasDefinition_toJS: "inj TypeAliasDefinition_toJS"
proof (rule injI)
  fix d e assume "TypeAliasDefinition_toJS d = TypeAliasDefinition_toJS e"
  then show "d = e"
    by (cases d; cases e) (simp add: TypeAliasDefinition_toJS_def)
qed

lemma inj_entries: "inj f \<Longrightarrow> inj (\<lambda>e. (fst e, f (snd e)))"
  by (auto simp: inj_def prod_eq_iff)

lemma ProjectSnapshot_toJS_inj:
  assumes "ProjectSnapshot_toJS s = ProjectSnapshot_toJS t"
  shows "s = t"
proof -
  from assms have
    "map (\<lambda>e. (fst e, FunctionSignature_toJS (snd e))) (r_functions (symbols s)) =
     map (\<lambda>e. (fst e, FunctionSignature_toJS (snd e))) (r_functions (symbols t))"
    "map (\<lambda>e. (fst e, InterfaceDefinition_toJS (snd e))) (r_interfaces (symbols s)) =
     map (\<lambda>e. (fst e, InterfaceDefinition_toJS (snd e))) (r_interfaces (symbols t))"
    "map (\<lambda>e. (fst e, TypeAliasDefinition_toJS (snd e))) (r_types (symbols s)) =
     map (\<lambda>e. (fst e, TypeAliasDefinition_toJS (snd e))) (r_types (symbols t))"
    by (simp_all add: ProjectSnapshot_toJS_def SymbolRegistry_toJS_def)
  then have "r_functions (symbols s) = r_functions (symbols t)"
    "r_interfaces (symbols s) = r_interfaces (symbols t)"
    "r_types (symbols s) = r_types (symbols t)"
    by (simp_all add: inj_map_eq_map [OF inj_entries [OF inj_FunctionSignature_toJS]]
        inj_map_eq_map [OF inj_entries [OF inj_InterfaceDefinition_toJS]]
        inj_map_eq_map [OF inj_entries [OF inj_TypeAliasDefinition_toJS]])
  then have "symbols s = symbols t" by simp
  then show ?thesis by simp
qed

subsection \<open>A validated path is valid\<close>

text \<open>The path that \<open>validatePath\<close> returns passes \<open>validatePath\<close> again, and resolves
  to itself, when trimming leaves it as it is and it is not longer than 4096. A path
  whose last segment ends in white space is not of this kind: the output path
  \<open>"x /"\<close> resolves to \<open>/repo/x \<close>, which as an argument resolves to \<open>/repo/x\<close>.\<close>

lemma absPath_nonempty: "absPath ns \<noteq> []"
  by (simp add: absPath_def)

lemma validatePath_idem:
  assumes abs: "isAbsolute cwd"
    and v: "validatePath cwd (JString s) baseDir = Inr p"
    and t: "trim p = p" "length p \<le> 4096"
  shows "validatePath cwd (JString p) baseDir = Inr p"
proof -
  let ?B = "resolvedBase cwd baseDir"
  from v have p: "p = path_resolve cwd [?B, trim s]"
    and rel: "\<not> startsWith (path_relative cwd ?B p) (u16 ''..'')"
      "\<not> startsWith (path_relative cwd ?B p) (u16 ''/'')"
    by (auto simp: validatePath_string split: if_splits)
  from path_resolve_absPath [OF abs, of "[?B, trim s]"] p obtain ks where
    ks: "list_all plain ks" "p = absPath ks" by auto
  have "path_resolve cwd [?B, p] = p"
    using path_resolve_last_absolute [OF ks(1), of cwd "[?B]"] ks(2) by simp
  moreover have "p \<noteq> []" by (simp add: ks(2) absPath_nonempty)
  ultimately show ?thesis
    using rel t by (simp add: validatePath_string)
qed

lemma validatePath_trailing_space_example:
  "validatePath (u16 ''/repo'') (JString (u16 ''x /'')) (Some (u16 ''/repo'')) =
     Inr (u16 ''/repo/x '') \<and>
   validatePath (u16 ''/repo'') (JString (u16 ''/repo/x '')) (Some (u16 ''/repo'')) =
     Inr (u16 ''/repo/x'')"
  by (simp add: validatePath_string resolvedBase_def resolveLoop_done path_defs)

subsection \<open>Round trip\<close>

lemma example_validate_main:
  "validatePath (u16 ''/repo'') (JString (u16 ''.flowlock/main.json'')) (Some (u16 ''/repo'')) =
     Inr (u16 ''/repo/.flowlock/main.json'')"
  by (simp add: validatePath_string resolvedBase_def resolveLoop_done path_defs)

lemma example_validate_tsconfig:
  "validatePath (u16 ''/repo'') (JString (u16 ''tsconfig.json'')) (Some (u16 ''/repo'')) =
     Inr (u16 ''/repo/tsconfig.json'')"
  by (simp add: validatePath_string resolvedBase_def resolveLoop_done path_defs)

lemma example_validate_old:
  "validatePath (u16 ''/repo'') (JString (u16 ''old-version.json'')) (Some (u16 ''/repo'')) =
     Inr (u16 ''/repo/old-version.json'')"
  by (simp add: validatePath_string resolvedBase_def resolveLoop_done path_defs)

lemma example_no_files: "\<not> list_ex (\<lambda>q. files example_world q \<noteq> None) qs"
  by (simp add: example_world_def list_ex_iff)

lemmas dir_defs = path_dirname_def ancestors_def pathSegments_def upt_rec u16_def slash_def

lemma example_main_dir:
  "u16 ''/repo/.flowlock/main.json'' \<notin>
     dirs example_world \<union> set (ancestors (path_dirname (u16 ''/repo/.flowlock/main.json'')))"
  by (simp add: example_world_def dir_defs)

lemma pathSegments_slash_joinPath:
  assumes "\<forall>s\<in>set xs. s \<noteq> [] \<and> slash \<notin> set s"
  shows "pathSegments (slash # joinPath xs) = xs"
proof (cases "xs = []")
  case True
  then show ?thesis by (simp add: pathSegments_def)
next
  case False
  with assms have "segments (joinPath xs) = xs"
    by (simp add: segments_joinPath)
  moreover have "filter (\<lambda>s. s \<noteq> []) xs = xs"
    using assms by (simp add: filter_all)
  ultimately show ?thesis by (simp add: pathSegments_def)
qed

lemma path_dirname_ancestor: "path_dirname p \<in> set (ancestors (path_dirname p))"
proof -
  let ?xs = "butlast (pathSegments p)"
  have "\<forall>s\<in>set (pathSegments p). s \<noteq> [] \<and> slash \<notin> set s"
    by (auto simp: pathSegments_def segments_slash_free)
  then have "\<forall>s\<in>set ?xs. s \<noteq> [] \<and> slash \<notin> set s"
    by (meson in_set_butlastD)
  then have "pathSegments (path_dirname p) = ?xs"
    unfolding path_dirname_def by (rule pathSegments_slash_joinPath)
  then have "ancestors (path_dirname p) =
      map (\<lambda>n. slash # joinPath (take n ?xs)) [0..<Suc (length ?xs)]"
    by (simp add: ancestors_def)
  moreover have "slash # joinPath (take (length ?xs) ?xs) = path_dirname p"
    by (simp add: path_dirname_def)
  ultimately show ?thesis
    by (metis (no_types, lifting) image_eqI lessI atLeastLessThan_iff set_map set_upt zero_le)
qed

text \<open>\<open>saveSnapshot\<close> succeeds when both paths are valid, the output path is not a
  directory, and neither its directory nor an ancestor of it is a file. It throws
  \<open>EISDIR\<close> when both paths are valid and the output path is a directory whose parent
  exists.\<close>

lemma saveSnapshot_succeeds:
  assumes vp: "validatePath (process_cwd w) (JString (outputArg options)) (Some (saveBase w options)) = Inr p"
    and vt: "validatePath (process_cwd w) (JString tsConfig) (Some (saveBase w options)) = Inr rt"
    and nf: "\<not> list_ex (\<lambda>q. files w q \<noteq> None) (ancestors (path_dirname p))"
    and nd: "p \<notin> dirs w \<union> set (ancestors (path_dirname p))"
  shows "\<exists>w'. saveSnapshot w S tsConfig options = Inr (p, w')"
proof -
  note d = path_dirname_ancestor [of p]
  from nf d have f: "files w (path_dirname p) = None"
    by (auto simp: list_ex_iff)
  show ?thesis
  proof (cases "path_dirname p \<in> dirs w")
    case True
    then have "existsSync w (path_dirname p)"
      by (simp add: existsSync_def)
    with True vp vt nf nd show ?thesis
      by (simp add: saveSnapshot_def Let_def outputArg_def saveBase_def writeFileSync_def)
  next
    case False
    with f have "\<not> existsSync w (path_dirname p)"
      by (simp add: existsSync_def)
    with vp vt nf nd d f show ?thesis
      by (simp add: saveSnapshot_def Let_def outputArg_def saveBase_def writeFileSync_def
          mkdirSync_recursive_def)
  qed
qed

lemma saveSnapshot_directory:
  assumes "validatePath (process_cwd w) (JString (outputArg options)) (Some (saveBase w options)) = Inr p"
    and "validatePath (process_cwd w) (JString tsConfig) (Some (saveBase w options)) = Inr rt"
    and "existsSync w (path_dirname p)"
    and "p \<in> dirs w"
  shows "saveSnapshot w S tsConfig options = Inl (SystemError ''EISDIR'')"
  using assms
  by (simp add: saveSnapshot_def Let_def outputArg_def saveBase_def writeFileSync_def)

text \<open>
  Claim C5. When \<open>saveSnapshot\<close> has saved a snapshot \<open>S\<close>, the output path and the
  base directory it was given resolve to the file it wrote, and every call of
  \<open>loadSnapshot\<close> whose path resolves to that file returns a stored snapshot whose
  \<open>snapshot\<close> is the object of \<open>S\<close>, and of no other snapshot, and whose metadata
  has the \<open>gitRef\<close> and the \<open>gitSha\<close> that were given to \<open>saveSnapshot\<close> (a field
  that was not given is absent, and reads as \<open>undefined\<close>).
\<close>

theorem save_load_roundtrip:
  assumes "saveSnapshot w S tsConfig options = Inr (p, w')"
  shows "validatePath (process_cwd w') (JString (outputArg options))
           (Some (saveBase w' options)) = Inr p \<and>
         (validatePath (process_cwd w') (JString path)
            (Some (case lo_baseDir lo of None \<Rightarrow> process_cwd w' | Some b \<Rightarrow> b)) = Inr p \<longrightarrow>
          (\<exists>v. loadSnapshot w' path lo = Inr v \<and>
             get_prop v ''snapshot'' = ProjectSnapshot_toJS S \<and>
             (\<forall>S'. get_prop v ''snapshot'' = ProjectSnapshot_toJS S' \<longrightarrow> S' = S) \<and>
             get_prop (get_prop v ''metadata'') ''gitRef'' = optional_toJS (so_gitRef options) \<and>
             get_prop (get_prop v ''metadata'') ''gitSha'' = optional_toJS (so_gitSha options)))"
proof -
  from saveSnapshot_Inr [OF assms] obtain rt where
    vp: "validatePath (process_cwd w) (JString (outputArg options)) (Some (saveBase w options)) = Inr p"
    and f: "files w' p = Some (JSON_stringify (StoredSnapshot_toJS (storedBy w S rt options)))"
    and cwd: "process_cwd w' = process_cwd w"
    by blast
  let ?st = "storedBy w S rt options"
  let ?v = "jsonValue (StoredSnapshot_toJS ?st)"
  have ver: "version (metadata ?st) = SNAPSHOT_FORMAT_VERSION"
    by (simp add: storedBy_def)
  have 1: "validatePath (process_cwd w') (JString (outputArg options))
      (Some (saveBase w' options)) = Inr p"
    using vp by (simp add: cwd saveBase_def cong: option.case_cong)
  have 3: "get_prop ?v ''snapshot'' = ProjectSnapshot_toJS S"
    by (simp add: stored_snapshot_prop storedBy_def)
  have 4: "\<forall>S'. get_prop ?v ''snapshot'' = ProjectSnapshot_toJS S' \<longrightarrow> S' = S"
    unfolding 3 using ProjectSnapshot_toJS_inj by blast
  have 5: "get_prop (get_prop ?v ''metadata'') ''gitRef'' = optional_toJS (so_gitRef options)"
    "get_prop (get_prop ?v ''metadata'') ''gitSha'' = optional_toJS (so_gitSha options)"
    by (simp_all add: stored_metadata_prop metadata_gitRef metadata_gitSha storedBy_def)
  have 2: "loadSnapshot w' path lo = Inr ?v"
    if "validatePath (process_cwd w') (JString path)
          (Some (case lo_baseDir lo of None \<Rightarrow> process_cwd w' | Some b \<Rightarrow> b)) = Inr p"
    using that by (rule loadSnapshot_stored [OF _ f ver])
  from 1 2 3 4 5 show ?thesis by blast
qed

theorem save_load_roundtrip_witness:
  "\<exists>p w'.
     saveSnapshot example_world (snapshotOf [(''fn:/repo/api.ts::greet'', greet_before)])
       (u16 ''tsconfig.json'')
       \<lparr>so_outputPath = Some (u16 ''.flowlock/main.json''), so_baseDir = None,
        so_gitRef = Some (u16 ''main''), so_gitSha = Some (u16 ''abc1234'')\<rparr> = Inr (p, w') \<and>
     validatePath (process_cwd w') (JString (u16 ''.flowlock/main.json''))
       (Some (process_cwd w')) = Inr p \<and>
     (\<exists>v. loadSnapshot w' (u16 ''.flowlock/main.json'') \<lparr>lo_baseDir = None\<rparr> = Inr v \<and>
          get_prop v ''snapshot'' =
            ProjectSnapshot_toJS (snapshotOf [(''fn:/repo/api.ts::greet'', greet_before)]) \<and>
          get_prop (get_prop v ''metadata'') ''gitRef'' = JString (u16 ''main'') \<and>
          get_prop (get_prop v ''metadata'') ''gitSha'' = JString (u16 ''abc1234''))"
proof -
  let ?S = "snapshotOf [(''fn:/repo/api.ts::greet'', greet_before)]"
  let ?o = "\<lparr>so_outputPath = Some (u16 ''.flowlock/main.json''), so_baseDir = None,
        so_gitRef = Some (u16 ''main''), so_gitSha = Some (u16 ''abc1234'')\<rparr>"
  have "\<exists>w'. saveSnapshot example_world ?S (u16 ''tsconfig.json'') ?o =
      Inr (u16 ''/repo/.flowlock/main.json'', w')"
    by (rule saveSnapshot_succeeds [where rt = "u16 ''/repo/tsconfig.json''",
          OF _ _ example_no_files example_main_dir])
      (simp_all add: outputArg_def saveBase_def example_world_def example_validate_main
        example_validate_tsconfig)
  then obtain w' where s: "saveSnapshot example_world ?S (u16 ''tsconfig.json'') ?o =
      Inr (u16 ''/repo/.flowlock/main.json'', w')" by blast
  note r = save_load_roundtrip [OF s, where path = "u16 ''.flowlock/main.json''"
      and lo = "\<lparr>lo_baseDir = None\<rparr>"]
  from r have v: "validatePath (process_cwd w') (JString (u16 ''.flowlock/main.json''))
      (Some (process_cwd w')) = Inr (u16 ''/repo/.flowlock/main.json'')"
    by (simp add: outputArg_def saveBase_def)
  with r obtain v where
    "loadSnapshot w' (u16 ''.flowlock/main.json'') \<lparr>lo_baseDir = None\<rparr> = Inr v"
    "get_prop v ''snapshot'' = ProjectSnapshot_toJS ?S"
    "get_prop (get_prop v ''metadata'') ''gitRef'' = optional_toJS (so_gitRef ?o)"
    "get_prop (get_prop v ''metadata'') ''gitSha'' = optional_toJS (so_gitSha ?o)"
    by auto
  then have "loadSnapshot w' (u16 ''.flowlock/main.json'') \<lparr>lo_baseDir = None\<rparr> = Inr v \<and>
      get_prop v ''snapshot'' = ProjectSnapshot_toJS ?S \<and>
      get_prop (get_prop v ''metadata'') ''gitRef'' = JString (u16 ''main'') \<and>
      get_prop (get_prop v ''metadata'') ''gitSha'' = JString (u16 ''abc1234'')"
    by (simp add: optional_toJS_def)
  with s v show ?thesis by blast
qed

subsection \<open>Unsupported version\<close>

text \<open>
  Claim C6. When the file at a valid path holds a well-formed stored snapshot whose
  \<open>metadata.version\<close> is a number other than the supported version 1, be it
  integral or not, \<open>loadSnapshot\<close> fails, and the message of the failure contains
  both the version found, as \<open>String\<close> prints it, and the supported version. For a
  safe integer the version found is printed in decimal digits: for 99 the message is
  \<open>Unsupported snapshot version: 99. Current version is 1. Please regenerate the snapshot.\<close>
  A version with a fraction is printed as the platform prints it: for 1.5 the message
  starts with \<open>Unsupported snapshot version: 1.5.\<close>
\<close>

theorem load_unsupported_version:
  assumes "validatePath (process_cwd w) (JString path)
      (Some (case lo_baseDir options of None \<Rightarrow> process_cwd w | Some b \<Rightarrow> b)) = Inr resolvedPath"
    and "files w resolvedPath = Some (JsonText v)"
    and "isStoredSnapshot v"
    and "get_prop (get_prop v ''metadata'') ''version'' = JNumber n"
    and "n \<noteq> SNAPSHOT_FORMAT_VERSION"
  shows "isl (loadSnapshot w path options) \<and>
         (validNumber n \<longrightarrow>
            (\<exists>message.
               loadSnapshot w path options = Inl (Error message) \<and>
               message = u16 ''Unsupported snapshot version: '' @ Number_toString n @
                 u16 ''. Current version is 1. Please regenerate the snapshot.'' \<and>
               sublist (Number_toString n) message \<and>
               sublist (Number_toString SNAPSHOT_FORMAT_VERSION) message))"
proof -
  let ?m = "u16 ''Unsupported snapshot version: '' @ Number_toString n @
            u16 ''. Current version is '' @ u16 ''1'' @ u16 ''. Please regenerate the snapshot.''"
  have l: "loadSnapshot w path options = Inl (Error ?m)"
    by (rule loadSnapshot_unsupported [OF assms])
  have m: "?m = u16 ''Unsupported snapshot version: '' @ Number_toString n @
                 u16 ''. Current version is 1. Please regenerate the snapshot.''"
    by (simp add: u16_def)
  have "sublist (Number_toString n) ?m"
    by (rule sublist_appendI)
  moreover have "sublist (u16 ''1'') ?m"
    using sublist_appendI [of "u16 ''1''"
        "u16 ''Unsupported snapshot version: '' @ Number_toString n @ u16 ''. Current version is ''"
        "u16 ''. Please regenerate the snapshot.''"]
    by simp
  ultimately show ?thesis
    using l m by (simp add: Number_toString_version)
qed

theorem load_unsupported_version_witness:
  "files (example_world\<lparr>files := [u16 ''/repo/old-version.json'' \<mapsto> JsonText version99_document]\<rparr>)
     (u16 ''/repo/old-version.json'') = Some (JsonText version99_document) \<and>
   isStoredSnapshot version99_document \<and>
   get_prop (get_prop version99_document ''metadata'') ''version'' = JNumber (SafeInteger 99) \<and>
   validNumber (SafeInteger 99) \<and>
   loadSnapshot
     (example_world\<lparr>files := [u16 ''/repo/old-version.json'' \<mapsto> JsonText version99_document]\<rparr>)
     (u16 ''old-version.json'') \<lparr>lo_baseDir = None\<rparr> =
   Inl (Error (u16
     ''Unsupported snapshot version: 99. Current version is 1. Please regenerate the snapshot.'')) \<and>
   isStoredSnapshot fraction_version_document \<and>
   get_prop (get_prop fraction_version_document ''metadata'') ''version'' =
     JNumber (OtherNumber (u16 ''1.5'')) \<and>
   validNumber (OtherNumber (u16 ''1.5'')) \<and>
   loadSnapshot
     (example_world\<lparr>files := [u16 ''/repo/old-version.json'' \<mapsto> JsonText fraction_version_document]\<rparr>)
     (u16 ''old-version.json'') \<lparr>lo_baseDir = None\<rparr> =
   Inl (Error (u16
     ''Unsupported snapshot version: 1.5. Current version is 1. Please regenerate the snapshot.''))"
proof -
  let ?w = "example_world\<lparr>files := [u16 ''/repo/old-version.json'' \<mapsto> JsonText version99_document]\<rparr>"
  let ?u = "example_world\<lparr>files := [u16 ''/repo/old-version.json'' \<mapsto> JsonText fraction_version_document]\<rparr>"
  have 1: "validatePath (process_cwd ?w) (JString (u16 ''old-version.json''))
      (Some (case lo_baseDir \<lparr>lo_baseDir = None\<rparr> of None \<Rightarrow> process_cwd ?w | Some b \<Rightarrow> b)) =
      Inr (u16 ''/repo/old-version.json'')"
    by (simp add: example_world_def example_validate_old)
  have 2: "files ?w (u16 ''/repo/old-version.json'') = Some (JsonText version99_document)"
    by simp
  have 3: "isStoredSnapshot version99_document"
    by (simp add: isStoredSnapshot_def version99_document_def get_prop_def u16_def)
  have 4: "get_prop (get_prop version99_document ''metadata'') ''version'' = JNumber (SafeInteger 99)"
    by (simp add: version99_document_def get_prop_def u16_def)
  have 5: "SafeInteger 99 \<noteq> SNAPSHOT_FORMAT_VERSION"
    by (simp add: SNAPSHOT_FORMAT_VERSION_def)
  have 6: "Number_toString (SafeInteger 99) = u16 ''99''"
    by (simp add: Number_toString.simps u16_def digits.simps [of 99] digits.simps [of 9])
  have 7: "validNumber (SafeInteger 99)"
    by simp
  from load_unsupported_version [OF 1 2 3 4 5] 7
  have "loadSnapshot ?w (u16 ''old-version.json'') \<lparr>lo_baseDir = None\<rparr> =
      Inl (Error (u16 ''Unsupported snapshot version: '' @ Number_toString (SafeInteger 99) @
        u16 ''. Current version is 1. Please regenerate the snapshot.''))"
    by auto
  then have a: "loadSnapshot ?w (u16 ''old-version.json'') \<lparr>lo_baseDir = None\<rparr> =
      Inl (Error (u16
        ''Unsupported snapshot version: 99. Current version is 1. Please regenerate the snapshot.''))"
    unfolding 6 by (simp add: u16_def)
  have f1: "validatePath (process_cwd ?u) (JString (u16 ''old-version.json''))
      (Some (case lo_baseDir \<lparr>lo_baseDir = None\<rparr> of None \<Rightarrow> process_cwd ?u | Some b \<Rightarrow> b)) =
      Inr (u16 ''/repo/old-version.json'')"
    by (simp add: example_world_def example_validate_old)
  have f2: "files ?u (u16 ''/repo/old-version.json'') = Some (JsonText fraction_version_document)"
    by simp
  have f3: "isStoredSnapshot fraction_version_document"
    by (simp add: isStoredSnapshot_def fraction_version_document_def get_prop_def u16_def)
  have f4: "get_prop (get_prop fraction_version_document ''metadata'') ''version'' =
      JNumber (OtherNumber (u16 ''1.5''))"
    by (simp add: fraction_version_document_def get_prop_def u16_def)
  have f5: "OtherNumber (u16 ''1.5'') \<noteq> SNAPSHOT_FORMAT_VERSION"
    by (simp add: SNAPSHOT_FORMAT_VERSION_def)
  have f7: "validNumber (OtherNumber (u16 ''1.5''))"
    by (simp add: u16_def decimalValue_def digitsValue_def Number_toString.simps
        digits.simps [of 105] digits.simps [of 10] digits.simps [of "Suc 0"])
  from load_unsupported_version [OF f1 f2 f3 f4 f5] f7
  have "loadSnapshot ?u (u16 ''old-version.json'') \<lparr>lo_baseDir = None\<rparr> =
      Inl (Error (u16 ''Unsupported snapshot version: '' @ Number_toString (OtherNumber (u16 ''1.5'')) @
        u16 ''. Current version is 1. Please regenerate the snapshot.''))"
    by auto
  then have b: "loadSnapshot ?u (u16 ''old-version.json'') \<lparr>lo_baseDir = None\<rparr> =
      Inl (Error (u16
        ''Unsupported snapshot version: 1.5. Current version is 1. Please regenerate the snapshot.''))"
    by (simp add: Number_toString.simps u16_def)
  from 2 3 4 7 a f3 f4 f7 b show ?thesis by blast
qed


section \<open>Properties of the snapshots of a git ref\<close>

lemma dropWhile_hd: "s \<noteq> [] \<Longrightarrow> \<not> P (hd s) \<Longrightarrow> dropWhile P s = s"
  by (cases s) auto

lemma trim_ends:
  assumes "s \<noteq> []" "\<not> isWhiteSpace (hd s)" "\<not> isWhiteSpace (last s)"
  shows "trim s = s"
proof -
  have "dropWhile isWhiteSpace s = s"
    using assms(1,2) by (rule dropWhile_hd)
  moreover have "dropWhile isWhiteSpace (rev s) = rev s"
    using assms(1,3) by (intro dropWhile_hd) (simp_all add: hd_rev)
  ultimately show ?thesis by (simp add: trim_def)
qed

lemma default_path_join:
  "u16 ''.flowlock/baseline-'' @ replaceUnsafe ref @ u16 ''.json'' =
     joinPath [u16 ''.flowlock'', baselineName ref]"
  by (simp add: baselineName_def replaceUnsafe_def u16_def slash_def)

lemma refFileChar_not_slash: "(if isRefFileChar c then c else 0x5F) \<noteq> slash"
  by (auto simp: isRefFileChar_def slash_def)

lemma not_in_map: "(\<And>c. f c \<noteq> x) \<Longrightarrow> x \<notin> set (map f xs)"
  by (induction xs) auto

lemma plain_baselineName: "plain (baselineName ref)"
proof -
  have "slash \<notin> set (map (\<lambda>c. if isRefFileChar c then c else 0x5F) ref)"
    by (rule not_in_map) (rule refFileChar_not_slash)
  then have "slash \<notin> set (baselineName ref)"
    by (simp add: baselineName_def u16_def slash_def)
  moreover have "length (baselineName ref) > 2"
    by (simp add: baselineName_def u16_def)
  then have "baselineName ref \<noteq> [] \<and> baselineName ref \<noteq> dot \<and> baselineName ref \<noteq> dotdot"
    by (auto simp: dot_def dotdot_def)
  ultimately show ?thesis by (simp add: plain_def)
qed

lemma plain_flowlock: "plain (u16 ''.flowlock'')"
  by (simp add: plain_def u16_def dot_def dotdot_def slash_def)

lemma trim_default_path:
  "trim (joinPath [u16 ''.flowlock'', baselineName ref]) =
     joinPath [u16 ''.flowlock'', baselineName ref]"
proof (rule trim_ends)
  show "joinPath [u16 ''.flowlock'', baselineName ref] \<noteq> []"
    by (simp add: u16_def)
  show "\<not> isWhiteSpace (hd (joinPath [u16 ''.flowlock'', baselineName ref]))"
    by (simp add: u16_def isWhiteSpace_def)
  show "\<not> isWhiteSpace (last (joinPath [u16 ''.flowlock'', baselineName ref]))"
    by (simp add: baselineName_def u16_def isWhiteSpace_def)
qed

lemma validatePath_default_path:
  assumes abs: "isAbsolute cwd"
    and v: "validatePath cwd (JString (u16 ''.flowlock/baseline-'' @ replaceUnsafe ref @ u16 ''.json''))
              baseDir = Inr p"
  shows "\<exists>ns. list_all plain ns \<and> resolvedBase cwd baseDir = absPath ns \<and>
           p = absPath (ns @ [u16 ''.flowlock'', baselineName ref])"
proof -
  from resolvedBase_absPath [OF abs] obtain ns where
    ns: "list_all plain ns" "resolvedBase cwd baseDir = absPath ns" by blast
  let ?ms = "[u16 ''.flowlock'', baselineName ref]"
  have ms: "list_all plain ?ms" "?ms \<noteq> []"
    by (simp_all add: plain_flowlock plain_baselineName)
  from v have "p = path_resolve cwd [resolvedBase cwd baseDir, trim (joinPath ?ms)]"
    unfolding default_path_join by (auto simp: validatePath_string split: if_splits)
  then have "p = absPath (ns @ ?ms)"
    unfolding trim_default_path ns(2) by (simp only: path_resolve_plain [OF ns(1) ms])
  with ns show ?thesis by blast
qed

lemma example_snapshotFromGitRef:
  assumes "validateGitRef (JString ref) = Inr ref"
  shows "snapshotFromGitRef example_world (u16 ''tsconfig.json'') ref
           \<lparr>g_cwd = None, installDeps = None\<rparr> =
         Inr \<lparr>metadata =
                \<lparr>version = SNAPSHOT_FORMAT_VERSION,
                 createdAt = u16 ''2025-02-23T12:00:00.000Z'',
                 tsConfigPath = u16 ''/repo/tsconfig.json'',
                 gitRef = Some ref,
                 gitSha = Some (u16 ''abc1234'')\<rparr>,
              snapshot = snapshotOf [(''fn:/repo/api.ts::greet'', greet_before)]\<rparr>"
proof -
  have "path_resolve (u16 ''/repo'') [u16 ''/repo'', u16 ''tsconfig.json''] = u16 ''/repo/tsconfig.json''"
    by (simp add: resolveLoop_done path_defs)
  then show ?thesis
    using assms
    by (simp add: snapshotFromGitRef_def Let_def example_world_def example_validate_tsconfig
        isGitRepository_def getGitSha_def)
qed

lemma example_saveSnapshotFromGitRef:
  assumes r: "validateGitRef (JString ref) = Inr ref"
    and o: "validatePath (u16 ''/repo'')
              (JString (u16 ''.flowlock/baseline-'' @ replaceUnsafe ref @ u16 ''.json''))
              (Some (u16 ''/repo'')) = Inr p"
    and nd: "p \<notin> dirs example_world \<union> set (ancestors (path_dirname p))"
  shows "\<exists>w'. saveSnapshotFromGitRef example_world (u16 ''tsconfig.json'') ref None
           \<lparr>g_cwd = None, installDeps = None\<rparr> = Inr (p, w')"
proof -
  have t: "path_resolve (u16 ''/repo'') [u16 ''/repo'', u16 ''tsconfig.json''] = u16 ''/repo/tsconfig.json''"
    by (simp add: resolveLoop_done path_defs)
  have v: "validatePath (u16 ''/repo'') (JString (u16 ''/repo/tsconfig.json'')) (Some (u16 ''/repo'')) =
      Inr (u16 ''/repo/tsconfig.json'')"
    by (simp add: validatePath_string resolvedBase_def resolveLoop_done path_defs)
  have c: "process_cwd example_world = u16 ''/repo''"
    by (simp add: example_world_def)
  show ?thesis
    unfolding saveSnapshotFromGitRef_def example_snapshotFromGitRef [OF r]
    by (simp add: Let_def c t)
      (rule saveSnapshot_succeeds [OF _ _ example_no_files nd];
        simp add: outputArg_def saveBase_def c o v)
qed

text \<open>
  Claim C9, as stated, fails: the dot and the hyphen of a ref are kept in the file
  name. The ref \<open>v1.0\<close> is saved under \<open>baseline-v1.0.json\<close>.
\<close>

theorem default_filename_keeps_dots_counterexample:
  "map_sum id fst
     (saveSnapshotFromGitRef example_world (u16 ''tsconfig.json'') (u16 ''v1.0'') None
        \<lparr>g_cwd = None, installDeps = None\<rparr>) =
   Inr (u16 ''/repo/.flowlock/baseline-v1.0.json'')"
proof -
  have r: "validateGitRef (JString (u16 ''v1.0'')) = Inr (u16 ''v1.0'')"
    by (simp add: gitref_defs)
  have n: "u16 ''.flowlock/baseline-'' @ replaceUnsafe (u16 ''v1.0'') @ u16 ''.json'' =
      u16 ''.flowlock/baseline-v1.0.json''"
    by (simp add: replaceUnsafe_def isRefFileChar_def u16_def)
  have o: "validatePath (u16 ''/repo'')
      (JString (u16 ''.flowlock/baseline-'' @ replaceUnsafe (u16 ''v1.0'') @ u16 ''.json''))
      (Some (u16 ''/repo'')) = Inr (u16 ''/repo/.flowlock/baseline-v1.0.json'')"
    unfolding n by (simp add: validatePath_string resolvedBase_def resolveLoop_done path_defs)
  have d: "u16 ''/repo/.flowlock/baseline-v1.0.json'' \<notin>
      dirs example_world \<union> set (ancestors (path_dirname (u16 ''/repo/.flowlock/baseline-v1.0.json'')))"
    by (simp add: example_world_def dir_defs)
  from example_saveSnapshotFromGitRef [OF r o d] show ?thesis by auto
qed

text \<open>
  Claim C9, amended. When \<open>saveSnapshotFromGitRef\<close> is called without an output path
  and succeeds, the snapshot of the ref is in the file
  \<open>.flowlock/baseline-{ref}.json\<close> of the resolved working directory, where in
  \<open>{ref}\<close> every code unit of the ref other than an ASCII letter, a digit, a dot or a
  hyphen has been replaced by an underscore; this path is returned.
\<close>

theorem default_baseline_filename:
  assumes "saveSnapshotFromGitRef w tsConfig ref None options = Inr (p, w')"
    and "isAbsolute (process_cwd w)"
  shows "\<exists>ns st.
           list_all plain ns \<and>
           resolvedBase (process_cwd w)
             (Some (case g_cwd options of None \<Rightarrow> process_cwd w | Some c \<Rightarrow> c)) = absPath ns \<and>
           p = absPath (ns @ [u16 ''.flowlock'',
                 u16 ''baseline-'' @ map (\<lambda>c. if isRefFileChar c then c else 0x5F) ref @
                 u16 ''.json'']) \<and>
           snapshotFromGitRef w tsConfig ref options = Inr st \<and>
           (\<exists>stored. snapshot stored = snapshot st \<and>
              files w' p = Some (JSON_stringify (StoredSnapshot_toJS stored)))"
proof -
  let ?cwd = "case g_cwd options of None \<Rightarrow> process_cwd w | Some c \<Rightarrow> c"
  let ?o = "\<lparr>so_outputPath = Some (u16 ''.flowlock/baseline-'' @ replaceUnsafe ref @ u16 ''.json''),
             so_baseDir = Some ?cwd, so_gitRef = Some ref, so_gitSha = None\<rparr>"
  from assms(1) obtain st where
    st: "snapshotFromGitRef w tsConfig ref options = Inr st"
    and sv: "saveSnapshot w (snapshot st) (path_resolve (process_cwd w) [?cwd, tsConfig])
               (?o\<lparr>so_gitSha := gitSha (metadata st)\<rparr>) = Inr (p, w')"
    by (auto simp: saveSnapshotFromGitRef_def Let_def split: sum.splits)
  from saveSnapshot_Inr [OF sv] obtain rt where
    vp: "validatePath (process_cwd w)
           (JString (u16 ''.flowlock/baseline-'' @ replaceUnsafe ref @ u16 ''.json'')) (Some ?cwd) = Inr p"
    and f: "files w' p = Some (JSON_stringify (StoredSnapshot_toJS
              (storedBy w (snapshot st) rt (?o\<lparr>so_gitSha := gitSha (metadata st)\<rparr>))))"
    by (auto simp: outputArg_def saveBase_def)
  from validatePath_default_path [OF assms(2) vp] obtain ns where
    ns: "list_all plain ns" "resolvedBase (process_cwd w) (Some ?cwd) = absPath ns"
      "p = absPath (ns @ [u16 ''.flowlock'', baselineName ref])" by blast
  have "snapshot (storedBy w (snapshot st) rt (?o\<lparr>so_gitSha := gitSha (metadata st)\<rparr>)) = snapshot st"
    by (simp add: storedBy_def)
  with f ns st show ?thesis
    unfolding baselineName_def by blast
qed

theorem default_baseline_filename_witness:
  "isAbsolute (process_cwd example_world) \<and>
   (\<exists>w'. saveSnapshotFromGitRef example_world (u16 ''tsconfig.json'') (u16 ''feature/x'') None
            \<lparr>g_cwd = None, installDeps = None\<rparr> =
          Inr (u16 ''/repo/.flowlock/baseline-feature_x.json'', w') \<and>
          files w' (u16 ''/repo/.flowlock/baseline-feature_x.json'') \<noteq> None)"
proof -
  have a: "isAbsolute (process_cwd example_world)"
    by (simp add: example_world_def isAbsolute_def u16_def slash_def)
  have r: "validateGitRef (JString (u16 ''feature/x'')) = Inr (u16 ''feature/x'')"
    by (simp add: gitref_defs)
  have n: "u16 ''.flowlock/baseline-'' @ replaceUnsafe (u16 ''feature/x'') @ u16 ''.json'' =
      u16 ''.flowlock/baseline-feature_x.json''"
    by (simp add: replaceUnsafe_def isRefFileChar_def u16_def)
  have o: "validatePath (u16 ''/repo'')
      (JString (u16 ''.flowlock/baseline-'' @ replaceUnsafe (u16 ''feature/x'') @ u16 ''.json''))
      (Some (u16 ''/repo'')) = Inr (u16 ''/repo/.flowlock/baseline-feature_x.json'')"
    unfolding n by (simp add: validatePath_string resolvedBase_def resolveLoop_done path_defs)
  have d: "u16 ''/repo/.flowlock/baseline-feature_x.json'' \<notin>
      dirs example_world \<union>
      set (ancestors (path_dirname (u16 ''/repo/.flowlock/baseline-feature_x.json'')))"
    by (simp add: example_world_def dir_defs)
  from example_saveSnapshotFromGitRef [OF r o d] obtain w' where
    s: "saveSnapshotFromGitRef example_world (u16 ''tsconfig.json'') (u16 ''feature/x'') None
          \<lparr>g_cwd = None, installDeps = None\<rparr> =
        Inr (u16 ''/repo/.flowlock/baseline-feature_x.json'', w')" by blast
  from default_baseline_filename [OF s a] have "files w' (u16 ''/repo/.flowlock/baseline-feature_x.json'') \<noteq> None"
    by auto
  with a s show ?thesis by blast
qed

end
